theory Spec2Isabelle
  imports Complex_Main "HOL-Library.Sublist" "HOL-Library.Monad_Syntax"
begin

section \<open>Strings and numbers of the host language\<close>

text \<open>
  A string of the program is a sequence of code units; it is modelled as a \<^typ>\<open>string\<close>
  whose characters are the code units \<open>0..255\<close>.  All markers of the grammar are ASCII.
  The white space that \<open>trim\<close> strips and that \<open>\s\<close> matches is, in this range, TAB, LF, VT,
  FF, CR, SPACE and NBSP; \<open>\d\<close> matches the ten ASCII digits only.
\<close>

definition is_space :: "char \<Rightarrow> bool" where
  "is_space c \<longleftrightarrow> c \<in> set [CHR 0x09, CHR 0x0A, CHR 0x0B, CHR 0x0C, CHR 0x0D, CHR 0x20, CHR 0xA0]"

definition is_digit :: "char \<Rightarrow> bool" where
  "is_digit c \<longleftrightarrow> c \<in> set ''0123456789''"

text \<open>\<open>String.prototype.trim\<close>: white space is removed at both ends.\<close>

definition trim :: "string \<Rightarrow> string" where
  "trim s = rev (dropWhile is_space (rev (dropWhile is_space s)))"

text \<open>
  \<open>String.prototype.split\<close> with a string separator: the subject is scanned from the left,
  every occurrence of the separator found after the previous one closes a piece, and the rest
  of the subject is the last piece.  With the empty separator the subject is cut into its
  code units.
\<close>

fun split_from :: "string \<Rightarrow> string \<Rightarrow> string \<Rightarrow> string list" where
  "split_from sep cur [] = [cur]"
| "split_from sep cur (c # cs) =
     (if sep \<noteq> [] \<and> prefix sep (c # cs)
      then cur # split_from sep [] (drop (length sep - 1) cs)
      else split_from sep (cur @ [c]) cs)"

definition split :: "string \<Rightarrow> string \<Rightarrow> string list" where
  "split s sep = (if sep = [] then map (\<lambda>c. [c]) s else split_from sep [] s)"

text \<open>
  A number of the program is an IEEE double.  The parser only produces the images of natural
  numbers: a natural number below \<open>2^53\<close> is itself, a larger one is rounded to 53
  significant bits (to nearest, ties to even), and from \<open>2^1024\<close> on the result is infinite.
  \<open>NaN\<close> is what \<open>parseInt\<close> returns without a leading digit.  (For more than twenty
  significant digits the language lets \<open>parseInt\<close> replace the digits after the twentieth
  by zeros.  The one input of that length below is a one followed by zeros, which this leaves
  as it is.)
\<close>

datatype jsnum = Finite nat | PosInfinity | NaN

fun bit_length :: "nat \<Rightarrow> nat" where
  "bit_length n = (if n = 0 then 0 else Suc (bit_length (n div 2)))"

declare bit_length.simps [simp del]

definition to_double :: "nat \<Rightarrow> jsnum" where
  "to_double n =
     (if n < 2 ^ 53 then Finite n
      else let e = bit_length n - 53;
               q = n div 2 ^ e;
               r = n mod 2 ^ e;
               h = 2 ^ (e - 1);
               m = (if h < r \<or> (r = h \<and> odd q) then q + 1 else q)
           in if 2 ^ 1024 \<le> m * 2 ^ e then PosInfinity else Finite (m * 2 ^ e))"

definition digit_val :: "char \<Rightarrow> nat" where
  "digit_val c = of_char c - 48"

definition dec :: "string \<Rightarrow> nat" where
  "dec s = foldl (\<lambda>n c. 10 * n + digit_val c) 0 s"

text \<open>
  \<open>parseInt\<close> on a capture of \<open>\d+\<close>: radix ten, the digits up to the first other code unit.
  (Leading white space, a sign and a \<open>0x\<close> prefix cannot occur in such a capture.)
\<close>

definition parseInt :: "string \<Rightarrow> jsnum" where
  "parseInt s = (let ds = takeWhile is_digit s in if ds = [] then NaN else to_double (dec ds))"

subsection \<open>Arithmetic on doubles\<close>

text \<open>
  The compositor subtracts and divides coordinates, so its numbers are not all images of
  natural numbers.  A \<open>number\<close> is a double in general: a rational that the format
  represents, an infinity, or not a number.  \<open>to_number\<close> rounds a rational to the nearest
  double, ties to even.  Around \<open>a\<close> the doubles are \<open>2 ^ ulp_exponent a\<close> apart: 52 binary
  places below the leading bit of \<open>a\<close>, whose place is \<open>ilog2 a\<close>, and never closer than the
  subnormal numbers are.  From \<open>2^1024\<close> on the result is infinite.  The sign of zero is not
  kept: nothing below depends on it.
\<close>

datatype number = Num rat | PlusInf | MinusInf | NotNumber

definition ilog2 :: "rat \<Rightarrow> int" where
  "ilog2 a = (if 1 \<le> a then int (bit_length (nat \<lfloor>a\<rfloor>)) - 1
              else - int (bit_length (nat (\<lceil>1 / a\<rceil> - 1))))"

definition round_half_even :: "rat \<Rightarrow> int" where
  "round_half_even r =
     (if r - of_int \<lfloor>r\<rfloor> < 1 / 2 then \<lfloor>r\<rfloor>
      else if 1 / 2 < r - of_int \<lfloor>r\<rfloor> then \<lfloor>r\<rfloor> + 1
      else if even \<lfloor>r\<rfloor> then \<lfloor>r\<rfloor> else \<lfloor>r\<rfloor> + 1)"

definition ulp_exponent :: "rat \<Rightarrow> int" where
  "ulp_exponent a = max (ilog2 a) (- 1022) - 52"

definition scaled :: "int \<Rightarrow> rat \<Rightarrow> rat" where
  "scaled k a = (if 0 \<le> k then a * 2 ^ nat k else a / 2 ^ nat (- k))"

definition nearest :: "rat \<Rightarrow> rat" where
  "nearest a = scaled (ulp_exponent a) (of_int (round_half_even (scaled (- ulp_exponent a) a)))"

definition to_number :: "rat \<Rightarrow> number" where
  "to_number x =
     (if x = 0 then Num 0
      else if 2 ^ 1024 \<le> nearest \<bar>x\<bar> then (if x < 0 then MinusInf else PlusInf)
      else Num (if x < 0 then - nearest \<bar>x\<bar> else nearest \<bar>x\<bar>))"

text \<open>A number of the parser, as a double in general.\<close>

fun number_of :: "jsnum \<Rightarrow> number" where
  "number_of (Finite n) = Num (of_nat n)"
| "number_of PosInfinity = PlusInf"
| "number_of NaN = NotNumber"

text \<open>
  The operators \<open>-\<close> and \<open>/\<close>, and \<open>Math.min\<close> and \<open>Math.max\<close> of two arguments.  An
  operand that is not a number makes the result not a number, and so do the difference and
  the quotient of two infinities and the quotient of two zeros.
\<close>

fun js_sub :: "number \<Rightarrow> number \<Rightarrow> number" where
  "js_sub NotNumber y = NotNumber"
| "js_sub x NotNumber = NotNumber"
| "js_sub PlusInf PlusInf = NotNumber"
| "js_sub MinusInf MinusInf = NotNumber"
| "js_sub PlusInf y = PlusInf"
| "js_sub MinusInf y = MinusInf"
| "js_sub x PlusInf = MinusInf"
| "js_sub x MinusInf = PlusInf"
| "js_sub (Num a) (Num b) = to_number (a - b)"

fun js_div :: "number \<Rightarrow> number \<Rightarrow> number" where
  "js_div NotNumber y = NotNumber"
| "js_div x NotNumber = NotNumber"
| "js_div PlusInf PlusInf = NotNumber"
| "js_div PlusInf MinusInf = NotNumber"
| "js_div MinusInf PlusInf = NotNumber"
| "js_div MinusInf MinusInf = NotNumber"
| "js_div PlusInf (Num d) = (if d < 0 then MinusInf else PlusInf)"
| "js_div MinusInf (Num d) = (if d < 0 then PlusInf else MinusInf)"
| "js_div (Num a) PlusInf = Num 0"
| "js_div (Num a) MinusInf = Num 0"
| "js_div (Num a) (Num d) =
     (if d = 0 then (if a = 0 then NotNumber else if a < 0 then MinusInf else PlusInf)
      else to_number (a / d))"

fun js_min :: "number \<Rightarrow> number \<Rightarrow> number" where
  "js_min NotNumber y = NotNumber"
| "js_min x NotNumber = NotNumber"
| "js_min MinusInf y = MinusInf"
| "js_min x MinusInf = MinusInf"
| "js_min PlusInf y = y"
| "js_min x PlusInf = x"
| "js_min (Num a) (Num b) = Num (min a b)"

fun js_max :: "number \<Rightarrow> number \<Rightarrow> number" where
  "js_max NotNumber y = NotNumber"
| "js_max x NotNumber = NotNumber"
| "js_max PlusInf y = PlusInf"
| "js_max x PlusInf = PlusInf"
| "js_max MinusInf y = y"
| "js_max x MinusInf = x"
| "js_max (Num a) (Num b) = Num (max a b)"

section \<open>The marker parser\<close>

type_synonym bbox_t = "jsnum \<times> jsnum \<times> jsnum \<times> jsnum"

record TextRegion =
  rtext :: string
  bbox :: bbox_t

definition ref_delim :: string where
  "ref_delim = ''<|ref|>text<|/ref|>''"

definition det_close :: string where
  "det_close = ''<|/det|>''"

subsection \<open>The detection-marker pattern\<close>

text \<open>
  The pattern is \<open><\|det\|>\[\[(\d+),\s*(\d+),\s*(\d+),\s*(\d+)\]\]<\|\/det\|>\<close>.
  The classes \<open>\d\<close> and \<open>\s\<close> are disjoint from each other and from the literals that
  follow them, so a greedy run is the only one that can lead to a match: the matcher takes
  the longest run of each class and never has to give any of it back.
\<close>

fun lit :: "string \<Rightarrow> string \<Rightarrow> string option" where
  "lit [] s = Some s"
| "lit (p # ps) [] = None"
| "lit (p # ps) (c # cs) = (if p = c then lit ps cs else None)"

definition digits1 :: "string \<Rightarrow> (string \<times> string) option" where
  "digits1 s = (let ds = takeWhile is_digit s in
                if ds = [] then None else Some (ds, dropWhile is_digit s))"

definition spaces :: "string \<Rightarrow> string" where
  "spaces s = dropWhile is_space s"

type_synonym captures = "string \<times> string \<times> string \<times> string"

definition det_at :: "string \<Rightarrow> captures option" where
  "det_at s = do {
     s1 \<leftarrow> lit ''<|det|>[['' s;
     (g1, s2) \<leftarrow> digits1 s1;
     s3 \<leftarrow> lit '','' s2;
     (g2, s4) \<leftarrow> digits1 (spaces s3);
     s5 \<leftarrow> lit '','' s4;
     (g3, s6) \<leftarrow> digits1 (spaces s5);
     s7 \<leftarrow> lit '','' s6;
     (g4, s8) \<leftarrow> digits1 (spaces s7);
     s9 \<leftarrow> lit '']]<|/det|>'' s8;
     Some (g1, g2, g3, g4)
   }"

text \<open>\<open>String.prototype.match\<close> without the global flag: the leftmost match.\<close>

fun detMatch :: "string \<Rightarrow> captures option" where
  "detMatch [] = None"
| "detMatch (c # cs) = (case det_at (c # cs) of Some m \<Rightarrow> Some m | None \<Rightarrow> detMatch cs)"

subsection \<open>parseOCRResult\<close>

text \<open>\<open>text.split('<|ref|>text<|/ref|>').filter(block => block.trim())\<close>\<close>

definition textBlocks :: "string \<Rightarrow> string list" where
  "textBlocks t = filter (\<lambda>block. trim block \<noteq> []) (split t ref_delim)"

text \<open>\<open>block.split('<|/det|>')[1]?.trim()\<close>; \<open>None\<close> is \<open>undefined\<close>.\<close>

definition textContent :: "string \<Rightarrow> string option" where
  "textContent block =
     (let pieces = split block det_close
      in if 1 < length pieces then Some (trim (pieces ! 1)) else None)"

text \<open>The body of the loop over the blocks: what one block appends to \<open>regions\<close>.\<close>

definition blockRegions :: "string \<Rightarrow> TextRegion list" where
  "blockRegions block =
     (case detMatch block of
        None \<Rightarrow> []
      | Some (g1, g2, g3, g4) \<Rightarrow>
          let b = (parseInt g1, parseInt g2, parseInt g3, parseInt g4)
          in (case textContent block of
                None \<Rightarrow> []
              | Some tc \<Rightarrow> if tc \<noteq> [] then [\<lparr>rtext = tc, bbox = b\<rparr>] else []))"

fun parse_loop :: "string list \<Rightarrow> TextRegion list \<Rightarrow> TextRegion list" where
  "parse_loop [] regions = regions"
| "parse_loop (block # rest) regions = parse_loop rest (regions @ blockRegions block)"

definition parseOCRResult :: "string \<Rightarrow> TextRegion list" where
  "parseOCRResult t = parse_loop (textBlocks t) []"


subsection \<open>The operations that can throw\<close>











section \<open>The overlay compositor\<close>

text \<open>
  The size of the label of a region that is drawn: with
  \<open>const [x1, y1, x2, y2] = region.bbox\<close> it is
  \<open>Math.max(12, Math.min(16, (y2 - y1) / 3))\<close>, computed on doubles.
\<close>

definition fontSize :: "TextRegion \<Rightarrow> number" where
  "fontSize region =
     (case bbox region of
        (x1, y1, x2, y2) \<Rightarrow>
          js_max (Num 12) (js_min (Num 16) (js_div (js_sub (number_of y2) (number_of y1)) (Num 3))))"


section \<open>The session and its handlers\<close>

text \<open>
  The component keeps its state in state variables.  A setter writes the current value
  (\<open>cur\<close>); the handlers of a render read the values of that render (\<open>shown\<close>), and the part
  of an asynchronous handler that runs after its suspension point still reads the values of
  the render that started it: a pending \<open>continuation\<close> carries them.  A file is known by its name, an
  object URL and a media stream by a number.  Besides the state variables the world holds what
  the browser holds: the object URLs made from overlay blobs and not revoked, and the streams
  whose tracks have not been stopped.  (The object URLs made from the source file for the
  preview are not overlay handles and are not tracked.  The output format, the image size and
  the camera availability are state variables that no handler below depends on; they are left
  out.)
\<close>

type_synonym url = nat

type_synonym stream_id = nat

record session =
  selectedFile :: "string option"
  overlayImageUrl :: "url option"
  ocrResult :: string
  textRegions :: "TextRegion list"
  isLoading :: bool
  showWebcam :: bool
  stream :: "stream_id option"

datatype continuation = Fetching session | Composing session | Acquiring session | Snapshotting session

record world =
  cur :: session
  shown :: session
  pending :: "continuation list"
  object_urls :: "url set"
  next_url :: url
  active_streams :: "stream_id set"
  next_stream :: stream_id

text \<open>The setters of the state variables.\<close>

definition setSelectedFile :: "string option \<Rightarrow> world \<Rightarrow> world" where
  "setSelectedFile v w = w\<lparr>cur := (cur w)\<lparr>selectedFile := v\<rparr>\<rparr>"

definition setOverlayImageUrl :: "url option \<Rightarrow> world \<Rightarrow> world" where
  "setOverlayImageUrl v w = w\<lparr>cur := (cur w)\<lparr>overlayImageUrl := v\<rparr>\<rparr>"

definition setOcrResult :: "string \<Rightarrow> world \<Rightarrow> world" where
  "setOcrResult v w = w\<lparr>cur := (cur w)\<lparr>ocrResult := v\<rparr>\<rparr>"

definition setTextRegions :: "TextRegion list \<Rightarrow> world \<Rightarrow> world" where
  "setTextRegions v w = w\<lparr>cur := (cur w)\<lparr>textRegions := v\<rparr>\<rparr>"

definition setIsLoading :: "bool \<Rightarrow> world \<Rightarrow> world" where
  "setIsLoading v w = w\<lparr>cur := (cur w)\<lparr>isLoading := v\<rparr>\<rparr>"

definition setShowWebcam :: "bool \<Rightarrow> world \<Rightarrow> world" where
  "setShowWebcam v w = w\<lparr>cur := (cur w)\<lparr>showWebcam := v\<rparr>\<rparr>"

definition setStream :: "stream_id option \<Rightarrow> world \<Rightarrow> world" where
  "setStream v w = w\<lparr>cur := (cur w)\<lparr>stream := v\<rparr>\<rparr>"

text \<open>
  \<open>URL.createObjectURL\<close> of a blob and \<open>getUserMedia\<close> give a new handle each time;
  \<open>URL.revokeObjectURL\<close> and stopping the tracks of a stream release one.
\<close>

definition createObjectURL :: "world \<Rightarrow> url \<times> world" where
  "createObjectURL w =
     (next_url w, w\<lparr>object_urls := insert (next_url w) (object_urls w), next_url := Suc (next_url w)\<rparr>)"

definition revokeObjectURL :: "url \<Rightarrow> world \<Rightarrow> world" where
  "revokeObjectURL u w = w\<lparr>object_urls := object_urls w - {u}\<rparr>"

definition getUserMedia :: "world \<Rightarrow> stream_id \<times> world" where
  "getUserMedia w =
     (next_stream w,
      w\<lparr>active_streams := insert (next_stream w) (active_streams w), next_stream := Suc (next_stream w)\<rparr>)"

definition stopTracks :: "stream_id \<Rightarrow> world \<Rightarrow> world" where
  "stopTracks s w = w\<lparr>active_streams := active_streams w - {s}\<rparr>"

definition enqueue :: "continuation \<Rightarrow> world \<Rightarrow> world" where
  "enqueue t w = w\<lparr>pending := pending w @ [t]\<rparr>"

definition dequeue :: "nat \<Rightarrow> world \<Rightarrow> world" where
  "dequeue n w = w\<lparr>pending := take n (pending w) @ drop (Suc n) (pending w)\<rparr>"

subsection \<open>Utility functions\<close>

text \<open>The first argument is the \<open>overlayImageUrl\<close> that the caller read from its render.\<close>

definition cleanupOverlayImage :: "url option \<Rightarrow> world \<Rightarrow> world" where
  "cleanupOverlayImage overlayImageUrl' w =
     (case overlayImageUrl' of
        None \<Rightarrow> w
      | Some u \<Rightarrow> setOverlayImageUrl None (revokeObjectURL u w))"

definition resetOcrState :: "url option \<Rightarrow> world \<Rightarrow> world" where
  "resetOcrState overlayImageUrl' w =
     cleanupOverlayImage overlayImageUrl' (setTextRegions [] (setOcrResult [] w))"

subsection \<open>File and image handlers\<close>

definition handleFileSelect :: "session \<Rightarrow> string option \<Rightarrow> world \<Rightarrow> world" where
  "handleFileSelect c file w =
     (case file of
        None \<Rightarrow> w
      | Some f \<Rightarrow> resetOcrState (overlayImageUrl c) (setSelectedFile (Some f) w))"

text \<open>
  \<open>createOverlayImage\<close>.  The image element of the preview exists when a file is selected, so
  the guard is on the file and the regions.  What the canvas does is given by \<open>canvas_env\<close>:
  whether a drawing context is obtained, whether the image loads (no error handler is set: if
  it does not, nothing more happens), and whether the encoding yields a blob.  The promise of
  the operation resolves with the new URL, resolves with nothing when the function returns
  early, and otherwise never settles.  \<open>createOverlayImage_begin\<close> is the part before the image
  loads, \<open>createOverlayImage_encoded\<close> the callback of the encoding.
\<close>

datatype 'a promise = Resolved 'a | Rejected | Unsettled

record canvas_env =
  ctx_ok :: bool
  decode_ok :: bool
  blob_ok :: bool

definition overlay_guard :: "session \<Rightarrow> bool" where
  "overlay_guard c \<longleftrightarrow> selectedFile c \<noteq> None \<and> textRegions c \<noteq> []"

definition toBlob_callback :: "world \<Rightarrow> url \<times> world" where
  "toBlob_callback w = (let (u, w') = createObjectURL w in (u, setOverlayImageUrl (Some u) w'))"

definition createOverlayImage :: "session \<Rightarrow> canvas_env \<Rightarrow> world \<Rightarrow> url option promise \<times> world" where
  "createOverlayImage c env w =
     (if \<not> overlay_guard c then (Resolved None, w)
      else if \<not> ctx_ok env then (Resolved None, w)
      else if \<not> decode_ok env then (Unsettled, w)
      else if \<not> blob_ok env then (Unsettled, w)
      else let (u, w') = toBlob_callback w in (Resolved (Some u), w'))"

definition createOverlayImage_begin :: "session \<Rightarrow> bool \<Rightarrow> world \<Rightarrow> world" where
  "createOverlayImage_begin c ctx w =
     (if \<not> overlay_guard c then w else if \<not> ctx then w else enqueue (Composing c) w)"

definition createOverlayImage_encoded :: "bool \<Rightarrow> world \<Rightarrow> world" where
  "createOverlayImage_encoded blob w = (if blob then snd (toBlob_callback w) else w)"

definition downloadOverlayImage :: "session \<Rightarrow> world \<Rightarrow> world" where
  "downloadOverlayImage c w = w"

subsection \<open>OCR handlers\<close>

text \<open>
  The request either rejects (the service is not reached, or its answer is not JSON) or gives
  the fields \<open>success\<close>, \<open>text\<close> and \<open>error\<close>.  \<open>handleOCR\<close> is the part before the request
  is awaited, \<open>handleOCR_settled\<close> the part after it; a success without text makes the parser
  throw, which the handler catches as it catches a rejection.
\<close>

datatype response = FetchRejected | FetchJson bool "string option" "string option"

definition handleOCR :: "session \<Rightarrow> world \<Rightarrow> world" where
  "handleOCR c w =
     (if selectedFile c = None then w else enqueue (Fetching c) (setIsLoading True w))"

definition error_text :: "string option \<Rightarrow> string" where
  "error_text e =
     ''Error: '' @ (case e of None \<Rightarrow> ''Failed to process image''
                    | Some m \<Rightarrow> if m \<noteq> [] then m else ''Failed to process image'')"

definition handleOCR_catch :: "session \<Rightarrow> world \<Rightarrow> world" where
  "handleOCR_catch c w =
     cleanupOverlayImage (overlayImageUrl c)
       (setTextRegions [] (setOcrResult ''Error: Failed to connect to OCR service'' w))"

definition handleOCR_settled :: "session \<Rightarrow> response \<Rightarrow> world \<Rightarrow> world" where
  "handleOCR_settled c r w =
     setIsLoading False
       (case r of
          FetchRejected \<Rightarrow> handleOCR_catch c w
        | FetchJson success t e \<Rightarrow>
            if success then
              (case t of
                 None \<Rightarrow> handleOCR_catch c w
               | Some t' \<Rightarrow>
                   cleanupOverlayImage (overlayImageUrl c)
                     (setTextRegions (parseOCRResult t') (setOcrResult t' w)))
            else
              cleanupOverlayImage (overlayImageUrl c)
                (setTextRegions [] (setOcrResult (error_text e) w)))"

subsection \<open>Webcam handlers\<close>

definition startWebcam :: "session \<Rightarrow> bool \<Rightarrow> world \<Rightarrow> world" where
  "startWebcam c supported w = (if \<not> supported then w else enqueue (Acquiring c) w)"

definition startWebcam_settled :: "bool \<Rightarrow> world \<Rightarrow> world" where
  "startWebcam_settled granted w =
     (if granted
      then let (s, w') = getUserMedia w in setShowWebcam True (setStream (Some s) w')
      else w)"

definition stopWebcam :: "session \<Rightarrow> world \<Rightarrow> world" where
  "stopWebcam c w =
     setShowWebcam False
       (case stream c of None \<Rightarrow> w | Some s \<Rightarrow> setStream None (stopTracks s w))"

definition capturePhoto :: "session \<Rightarrow> bool \<Rightarrow> world \<Rightarrow> world" where
  "capturePhoto c context w =
     (if showWebcam c \<and> context then enqueue (Snapshotting c) w else w)"

definition capturePhoto_encoded :: "session \<Rightarrow> bool \<Rightarrow> world \<Rightarrow> world" where
  "capturePhoto_encoded c blob w =
     (if blob
      then stopWebcam c
             (resetOcrState (overlayImageUrl c) (setSelectedFile (Some ''webcam-photo.jpg'') w))
      else w)"

subsection \<open>Rendering and events\<close>

text \<open>
  When a render is committed, the clean-up of each effect whose dependency changed runs with
  the value of the previous render: the tracks of the previous stream are stopped and the
  previous overlay URL is revoked.  From then on the handlers read the new values.
\<close>

definition render :: "world \<Rightarrow> world" where
  "render w =
     (let w1 = (if stream (cur w) \<noteq> stream (shown w)
                then (case stream (shown w) of None \<Rightarrow> w | Some s \<Rightarrow> stopTracks s w)
                else w);
          w2 = (if overlayImageUrl (cur w) \<noteq> overlayImageUrl (shown w)
                then (case overlayImageUrl (shown w) of None \<Rightarrow> w1 | Some u \<Rightarrow> revokeObjectURL u w1)
                else w1)
      in w2\<lparr>shown := cur w\<rparr>)"

text \<open>
  What can happen to the component: a file is chosen, a button that the last render shows and
  enables is clicked, a pending operation settles, or a render is committed.  File upload and
  the webcam are enabled and a camera is present, as in the default configuration.  A pending
  operation is named by its place among the pending ones; the flag of a click is what the
  browser grants (a drawing context, camera support), the flag of a settling what it delivers
  (a blob, a stream).
\<close>

datatype event =
    FileChosen "string option"
  | ExtractClicked
  | FetchSettled nat response
  | OverlayClicked bool
  | OverlayEncoded nat bool
  | DownloadClicked
  | WebcamClicked bool
  | CameraSettled nat bool
  | CancelClicked
  | CaptureClicked bool
  | SnapshotEncoded nat bool
  | Rendered

definition settle :: "nat \<Rightarrow> event \<Rightarrow> world \<Rightarrow> world" where
  "settle n e w =
     (if n < length (pending w) then
        (case (pending w ! n, e) of
           (Fetching c, FetchSettled _ r) \<Rightarrow> handleOCR_settled c r (dequeue n w)
         | (Composing c, OverlayEncoded _ b) \<Rightarrow> createOverlayImage_encoded b (dequeue n w)
         | (Acquiring c, CameraSettled _ g) \<Rightarrow> startWebcam_settled g (dequeue n w)
         | (Snapshotting c, SnapshotEncoded _ b) \<Rightarrow> capturePhoto_encoded c b (dequeue n w)
         | _ \<Rightarrow> w)
      else w)"

fun step :: "world \<Rightarrow> event \<Rightarrow> world" where
  "step w (FileChosen file) = handleFileSelect (shown w) file w"
| "step w ExtractClicked =
     (if selectedFile (shown w) \<noteq> None \<and> \<not> isLoading (shown w) then handleOCR (shown w) w else w)"
| "step w (FetchSettled n r) = settle n (FetchSettled n r) w"
| "step w (OverlayClicked ctx) =
     (if selectedFile (shown w) \<noteq> None \<and> textRegions (shown w) \<noteq> [] \<and>
         overlayImageUrl (shown w) = None
      then createOverlayImage_begin (shown w) ctx w else w)"
| "step w (OverlayEncoded n b) = settle n (OverlayEncoded n b) w"
| "step w DownloadClicked =
     (if selectedFile (shown w) \<noteq> None \<and> textRegions (shown w) \<noteq> [] \<and>
         overlayImageUrl (shown w) \<noteq> None
      then downloadOverlayImage (shown w) w else w)"
| "step w (WebcamClicked supported) =
     (if showWebcam (shown w) then stopWebcam (shown w) w else startWebcam (shown w) supported w)"
| "step w (CameraSettled n g) = settle n (CameraSettled n g) w"
| "step w CancelClicked = (if showWebcam (shown w) then stopWebcam (shown w) w else w)"
| "step w (CaptureClicked context) =
     (if showWebcam (shown w) then capturePhoto (shown w) context w else w)"
| "step w (SnapshotEncoded n b) = settle n (SnapshotEncoded n b) w"
| "step w Rendered = render w"

definition initial_session :: session where
  "initial_session = \<lparr>selectedFile = None, overlayImageUrl = None, ocrResult = [], textRegions = [],
     isLoading = False, showWebcam = False, stream = None\<rparr>"

definition initial_world :: world where
  "initial_world = \<lparr>cur = initial_session, shown = initial_session, pending = [],
     object_urls = {}, next_url = 0, active_streams = {}, next_stream = 0\<rparr>"

definition run :: "event list \<Rightarrow> world" where
  "run evs = foldl step initial_world evs"

text \<open>A run in which every change is rendered before anything else happens.\<close>

definition rendered_run :: "event list \<Rightarrow> world" where
  "rendered_run evs = foldl (\<lambda>w e. render (step w e)) initial_world evs"

section \<open>Vocabulary of the specification\<close>

subsection \<open>The marker grammar\<close>

text \<open>
  \<open>INT\<close> is one or more decimal digits; between a comma and the next \<open>INT\<close> any white space
  may stand.  \<open>det_marker\<close> is the detection marker with these parts, \<open>det_open\<close> the marker
  without its closing tag, and a block \<open>has_marker\<close> when some part of it is a detection marker.
\<close>

definition digit_string :: "string \<Rightarrow> bool" where
  "digit_string g \<longleftrightarrow> g \<noteq> [] \<and> list_all is_digit g"

definition space_string :: "string \<Rightarrow> bool" where
  "space_string w \<longleftrightarrow> list_all is_space w"

definition det_marker :: "string \<Rightarrow> string \<Rightarrow> string \<Rightarrow> string \<Rightarrow> string \<Rightarrow> string \<Rightarrow> string \<Rightarrow> string" where
  "det_marker g1 w1 g2 w2 g3 w3 g4 =
     ''<|det|>[['' @ g1 @ '','' @ w1 @ g2 @ '','' @ w2 @ g3 @ '','' @ w3 @ g4 @ '']]<|/det|>''"

definition det_open :: "string \<Rightarrow> string \<Rightarrow> string \<Rightarrow> string \<Rightarrow> string \<Rightarrow> string \<Rightarrow> string \<Rightarrow> string" where
  "det_open g1 w1 g2 w2 g3 w3 g4 =
     ''<|det|>[['' @ g1 @ '','' @ w1 @ g2 @ '','' @ w2 @ g3 @ '','' @ w3 @ g4 @ '']]''"



text \<open>
  A marked block is a detection marker followed by its trailing text; in the input it comes
  after the block delimiter.  It is well formed when its integers and gaps are as the grammar
  says, and its trailing text does not hold the delimiter and is not blank.
\<close>

record marked_block =
  int1 :: string
  gap1 :: string
  int2 :: string
  gap2 :: string
  int3 :: string
  gap3 :: string
  int4 :: string
  trailing :: string

definition block_marker :: "marked_block \<Rightarrow> string" where
  "block_marker b = det_marker (int1 b) (gap1 b) (int2 b) (gap2 b) (int3 b) (gap3 b) (int4 b)"

definition block_body :: "marked_block \<Rightarrow> string" where
  "block_body b = block_marker b @ trailing b"

definition block_source :: "marked_block \<Rightarrow> string" where
  "block_source b = ref_delim @ block_body b"

definition well_formed :: "marked_block \<Rightarrow> bool" where
  "well_formed b \<longleftrightarrow>
     digit_string (int1 b) \<and> digit_string (int2 b) \<and> digit_string (int3 b) \<and> digit_string (int4 b) \<and>
     space_string (gap1 b) \<and> space_string (gap2 b) \<and> space_string (gap3 b) \<and>
     \<not> sublist ref_delim (trailing b) \<and> trim (trailing b) \<noteq> []"

text \<open>Every integer up to \<open>2^53\<close> is a number of the program.\<close>

definition exact_ints :: "marked_block \<Rightarrow> bool" where
  "exact_ints b \<longleftrightarrow>
     dec (int1 b) \<le> 2 ^ 53 \<and> dec (int2 b) \<le> 2 ^ 53 \<and> dec (int3 b) \<le> 2 ^ 53 \<and> dec (int4 b) \<le> 2 ^ 53"

definition region_of :: "marked_block \<Rightarrow> TextRegion" where
  "region_of b = \<lparr>rtext = trim (trailing b),
                  bbox = (Finite (dec (int1 b)), Finite (dec (int2 b)),
                          Finite (dec (int3 b)), Finite (dec (int4 b)))\<rparr>"

text \<open>The example of the specification: two blocks, \<open>Hello\<close> and \<open>World\<close>.\<close>

definition spec_example :: "marked_block list" where
  "spec_example =
     [\<lparr>int1 = ''10'', gap1 = [], int2 = ''20'', gap2 = [], int3 = ''110'', gap3 = [],
       int4 = ''60'', trailing = ''Hello''\<rparr>,
      \<lparr>int1 = ''5'', gap1 = [], int2 = ''5'', gap2 = [], int3 = ''50'', gap3 = [],
       int4 = ''50'', trailing = ''World''\<rparr>]"

text \<open>A separator is unbordered when no proper prefix of it is also a suffix of it.\<close>

definition unbordered :: "string \<Rightarrow> bool" where
  "unbordered d \<longleftrightarrow> (\<forall>k \<in> set [1..<length d]. drop k d \<noteq> take (length d - k) d)"

subsection \<open>The label size\<close>

definition clamp :: "rat \<Rightarrow> rat \<Rightarrow> rat \<Rightarrow> rat" where
  "clamp x lo hi = (if x < lo then lo else if hi < x then hi else x)"

text \<open>
  The clamp of a double: an infinite value lies beyond the bound on its side, and what is not
  a number has no clamp.  \<open>third_of_height\<close> is \<open>(y2 - y1) / 3\<close> for the box of a region,
  the difference and the quotient each rounded to a double.
\<close>

fun clamp_ext :: "number \<Rightarrow> rat \<Rightarrow> rat \<Rightarrow> rat option" where
  "clamp_ext (Num q) lo hi = Some (clamp q lo hi)"
| "clamp_ext PlusInf lo hi = Some hi"
| "clamp_ext MinusInf lo hi = Some lo"
| "clamp_ext NotNumber lo hi = None"

definition third_of_height :: "TextRegion \<Rightarrow> number" where
  "third_of_height region =
     (case bbox region of
        (x1, y1, x2, y2) \<Rightarrow> js_div (js_sub (number_of y2) (number_of y1)) (Num 3))"

subsection \<open>The workflow\<close>

text \<open>
  A world is settled when what is shown is the current state and the browser holds no overlay
  URL and no stream but the current ones.  A step \<open>keeps_only_current\<close> when it adds to what
  the browser holds nothing but the handles it makes current.
\<close>

definition settled :: "world \<Rightarrow> bool" where
  "settled w \<longleftrightarrow>
     shown w = cur w \<and>
     object_urls w \<subseteq> set_option (overlayImageUrl (cur w)) \<and>
     active_streams w \<subseteq> set_option (stream (cur w))"

definition keeps_only_current :: "world \<Rightarrow> world \<Rightarrow> bool" where
  "keeps_only_current w w' \<longleftrightarrow>
     shown w' = shown w \<and>
     object_urls w' \<subseteq> object_urls w \<union> set_option (overlayImageUrl (cur w')) \<and>
     active_streams w' \<subseteq> active_streams w \<union> set_option (stream (cur w'))"

text \<open>
  An attempt fails when the request rejects or the service reports no success.  The three
  pieces of derived state are cleared when the result text is empty or an error text, there is
  no region and no overlay handle.
\<close>

definition failed :: "response \<Rightarrow> bool" where
  "failed r \<longleftrightarrow> (case r of FetchRejected \<Rightarrow> True | FetchJson success t e \<Rightarrow> \<not> success)"

definition is_error :: "string \<Rightarrow> bool" where
  "is_error s \<longleftrightarrow> prefix ''Error: '' s"

definition cleared :: "world \<Rightarrow> bool" where
  "cleared w \<longleftrightarrow>
     (ocrResult (cur w) = [] \<or> is_error (ocrResult (cur w))) \<and>
     textRegions (cur w) = [] \<and> overlayImageUrl (cur w) = None"

text \<open>
  Sample runs.  A file is chosen and its text extracted; then an overlay is made; then a
  second extraction is started.  In \<open>stale_overlay_trace\<close> the overlay is made while the second
  extraction is pending, and the request then rejects.  In \<open>double_click_trace\<close> the overlay
  button is clicked twice before the first overlay is encoded, in \<open>double_start_trace\<close> the
  camera button twice before the first stream is granted.
\<close>

definition one_region_text :: string where
  "one_region_text = ''<|ref|>text<|/ref|><|det|>[[10,20,110,60]]<|/det|>Hello''"

definition extracted_trace :: "event list" where
  "extracted_trace =
     [FileChosen (Some ''a.png''), Rendered, ExtractClicked, Rendered,
      FetchSettled 0 (FetchJson True (Some one_region_text) None), Rendered]"

definition overlay_trace :: "event list" where
  "overlay_trace = extracted_trace @ [OverlayClicked True, Rendered, OverlayEncoded 0 True, Rendered]"

definition restart_trace :: "event list" where
  "restart_trace = overlay_trace @ [ExtractClicked, Rendered]"

definition stale_overlay_trace :: "event list" where
  "stale_overlay_trace =
     extracted_trace @
     [ExtractClicked, Rendered, OverlayClicked True, Rendered, OverlayEncoded 1 True, Rendered,
      FetchSettled 0 FetchRejected, Rendered]"

definition double_click_trace :: "event list" where
  "double_click_trace =
     extracted_trace @
     [OverlayClicked True, Rendered, OverlayClicked True, Rendered, OverlayEncoded 0 True, Rendered,
      OverlayEncoded 0 True]"

definition double_start_trace :: "event list" where
  "double_start_trace =
     [WebcamClicked True, Rendered, WebcamClicked True, Rendered, CameraSettled 0 True, Rendered,
      CameraSettled 0 True]"

text \<open>
  \<open>with_renders\<close> is the run in which a render is committed after each event.  In
  \<open>leaked_overlay_trace\<close> and \<open>leaked_stream_trace\<close> the button is clicked twice and
  both pending operations settle before the next render.
\<close>

definition with_renders :: "event list \<Rightarrow> event list" where
  "with_renders evs = concat (map (\<lambda>e. [e, Rendered]) evs)"

definition leaked_overlay_trace :: "event list" where
  "leaked_overlay_trace =
     extracted_trace @
     [OverlayClicked True, Rendered, OverlayClicked True, Rendered, OverlayEncoded 0 True,
      OverlayEncoded 0 True, Rendered]"

definition leaked_stream_trace :: "event list" where
  "leaked_stream_trace =
     [WebcamClicked True, Rendered, WebcamClicked True, Rendered, CameraSettled 0 True,
      CameraSettled 0 True, Rendered]"

text \<open>
  A text whose marker has a \<open>y1\<close> and a \<open>y2\<close> of 310 digits, a one and 309 zeros, and the
  run in which the service answers with it.
\<close>

definition tall_text :: string where
  "tall_text =
     ref_delim @
     det_marker ''0'' [] (CHR ''1'' # replicate 309 CHR ''0'') [] ''0'' []
       (CHR ''1'' # replicate 309 CHR ''0'') @ ''A''"

definition tall_trace :: "event list" where
  "tall_trace =
     [FileChosen (Some ''a.png''), Rendered, ExtractClicked, Rendered,
      FetchSettled 0 (FetchJson True (Some tall_text) None), Rendered]"

section \<open>Properties of split\<close>

text \<open>
  Both separators of the parser are unbordered, so an occurrence of the separator cannot begin
  before a given occurrence and end inside it: splitting \<open>x @ d @ y\<close> at \<open>d\<close> gives the
  pieces of \<open>x\<close> followed by the pieces of \<open>y\<close>.
\<close>

lemma unbordered_ref_delim: "unbordered ref_delim"
  by code_simp


lemma unbordered_no_straddle:
  assumes u: "unbordered d" and x: "x \<noteq> []" and p: "prefix d (x @ d @ y)"
  shows "prefix d x"
proof (cases "length d \<le> length x")
  case True
  from p obtain z where z: "x @ d @ y = d @ z" by (auto simp: prefix_def)
  then have "take (length d) (x @ d @ y) = d" by simp
  with True have "take (length d) x = d" by simp
  then show ?thesis by (metis take_is_prefix)
next
  case False
  define k where "k = length x"
  have k: "0 < k" "k < length d" using x False by (auto simp: k_def)
  from p obtain z where z: "x @ d @ y = d @ z" by (auto simp: prefix_def)
  then have "take (length d) (x @ d @ y) = d" by simp
  then have "x @ take (length d - k) d = d" using k by (simp add: k_def)
  then have "drop k (x @ take (length d - k) d) = drop k d" by simp
  then have "drop k d = take (length d - k) d" by (simp add: k_def)
  with u k show ?thesis by (auto simp: unbordered_def)
qed

lemma split_from_hit: "d \<noteq> [] \<Longrightarrow> split_from d piece (d @ y) = piece # split_from d [] y"
  by (cases d) (auto)

lemma split_from_append_sep:
  "unbordered d \<Longrightarrow> d \<noteq> [] \<Longrightarrow>
   split_from d piece (x @ d @ y) = split_from d piece x @ split_from d [] y"
proof (induction d piece x rule: split_from.induct)
  case (1 sep piece)
  then show ?case by (simp add: split_from_hit)
next
  case (2 sep piece c cs)
  show ?case
  proof (cases "prefix sep (c # cs)")
    case True
    then have len: "length sep - 1 \<le> length cs"
      by (auto dest: prefix_length_le)
    from True have "prefix sep ((c # cs) @ sep @ y)"
      by (rule prefix_prefix)
    with True 2 len show ?thesis by simp
  next
    case False
    with unbordered_no_straddle [OF "2.prems"(1), of "c # cs" y]
    have "\<not> prefix sep ((c # cs) @ sep @ y)" by blast
    with False 2 show ?thesis by simp
  qed
qed

lemma split_from_none:
  "\<not> sublist d x \<Longrightarrow> split_from d piece x = [piece @ x]"
proof (induction d piece x rule: split_from.induct)
  case (1 sep piece)
  then show ?case by simp
next
  case (2 sep piece c cs)
  from "2.prems" have np: "\<not> prefix sep (c # cs)"
    using prefix_imp_sublist by blast
  from "2.prems" have "\<not> sublist sep cs"
    by (meson sublist_Cons_right)
  with np 2 show ?case by simp
qed

lemma split_from_skip_nohd:
  "d = h # t \<Longrightarrow> h \<notin> set xs \<Longrightarrow> split_from d piece (xs @ ys) = split_from d (piece @ xs) ys"
  by (induction xs arbitrary: piece) auto



section \<open>The matcher and the grammar\<close>

text \<open>
  The matcher succeeds exactly on the strings that begin with a detection marker of the
  grammar, and then returns the four integers of that marker; the search finds a match
  exactly in the blocks that hold a marker.
\<close>

lemma lit_append: "lit p (p @ s) = Some s"
  by (induction p) auto

lemma lit_SomeD: "lit p s = Some r \<Longrightarrow> s = p @ r"
  by (induction p s rule: lit.induct) (auto split: if_splits)

lemma digits1_run:
  "digit_string g \<Longrightarrow> \<not> is_digit r \<Longrightarrow> digits1 (g @ r # rest) = Some (g, r # rest)"
  by (auto simp: digits1_def digit_string_def list_all_iff takeWhile_append2 dropWhile_append2)

lemma digits1_SomeD: "digits1 s = Some (g, r) \<Longrightarrow> s = g @ r \<and> digit_string g"
  by (auto simp: digits1_def Let_def digit_string_def list_all_iff split: if_splits dest: set_takeWhileD)

lemma spaces_run:
  "space_string w \<Longrightarrow> digit_string g \<Longrightarrow> spaces (w @ g @ rest) = g @ rest"
proof -
  assume w: "space_string w" and g: "digit_string g"
  then obtain c cs where gc: "g = c # cs" "is_digit c"
    by (cases g) (auto simp: digit_string_def)
  then have "\<not> is_space c" by (auto simp: is_digit_def is_space_def)
  with w gc show ?thesis
    by (simp add: spaces_def space_string_def list_all_iff dropWhile_append2)
qed

lemma spaces_D: "\<exists>w. s = w @ spaces s \<and> space_string w"
  by (rule exI [of _ "takeWhile is_space s"])
     (auto simp: spaces_def space_string_def list_all_iff dest: set_takeWhileD)

lemma det_at_marker:
  assumes "digit_string g1" "digit_string g2" "digit_string g3" "digit_string g4"
    and "space_string w1" "space_string w2" "space_string w3"
  shows "det_at (det_marker g1 w1 g2 w2 g3 w3 g4 @ rest) = Some (g1, g2, g3, g4)"
proof -
  have nd: "\<not> is_digit CHR '',''" "\<not> is_digit CHR '']''"
    by (simp_all add: is_digit_def)
  have 1: "lit ''<|det|>[['' (det_marker g1 w1 g2 w2 g3 w3 g4 @ rest)
        = Some (g1 @ '','' @ w1 @ g2 @ '','' @ w2 @ g3 @ '','' @ w3 @ g4 @ '']]<|/det|>'' @ rest)"
    unfolding det_marker_def append_assoc by (rule lit_append)
  have c: "\<And>s. lit '','' ('','' @ s) = Some s" "\<And>s. lit '']]<|/det|>'' ('']]<|/det|>'' @ s) = Some s"
    by (rule lit_append)+
  have d: "\<And>g s. digit_string g \<Longrightarrow> digits1 (g @ '','' @ s) = Some (g, '','' @ s)"
      "\<And>g s. digit_string g \<Longrightarrow> digits1 (g @ '']]<|/det|>'' @ s) = Some (g, '']]<|/det|>'' @ s)"
    using nd by (simp_all add: digits1_run)
  show ?thesis
    unfolding det_at_def 1 using assms
    by (simp only: bind.bind_lunit d c spaces_run split)
qed

lemma det_at_SomeD:
  assumes "det_at s = Some (g1, g2, g3, g4)"
  shows "\<exists>w1 w2 w3 rest. s = det_marker g1 w1 g2 w2 g3 w3 g4 @ rest \<and>
           digit_string g1 \<and> digit_string g2 \<and> digit_string g3 \<and> digit_string g4 \<and>
           space_string w1 \<and> space_string w2 \<and> space_string w3"
proof -
  from assms obtain s1 s2 s3 s4 s5 s6 s7 s8 s9 where
    l1: "lit ''<|det|>[['' s = Some s1" and d1: "digits1 s1 = Some (g1, s2)" and
    l2: "lit '','' s2 = Some s3" and d2: "digits1 (spaces s3) = Some (g2, s4)" and
    l3: "lit '','' s4 = Some s5" and d3: "digits1 (spaces s5) = Some (g3, s6)" and
    l4: "lit '','' s6 = Some s7" and d4: "digits1 (spaces s7) = Some (g4, s8)" and
    l5: "lit '']]<|/det|>'' s8 = Some s9"
    unfolding det_at_def by (auto split: Option.bind_splits)
  obtain w1 where w1: "s3 = w1 @ spaces s3" "space_string w1" using spaces_D by blast
  obtain w2 where w2: "s5 = w2 @ spaces s5" "space_string w2" using spaces_D by blast
  obtain w3 where w3: "s7 = w3 @ spaces s7" "space_string w3" using spaces_D by blast
  have "s = ''<|det|>[['' @ g1 @ '','' @ w1 @ g2 @ '','' @ w2 @ g3 @ '','' @ w3 @ g4 @ '']]<|/det|>'' @ s9"
    using lit_SomeD [OF l1] lit_SomeD [OF l2] lit_SomeD [OF l3] lit_SomeD [OF l4] lit_SomeD [OF l5]
      digits1_SomeD [OF d1] digits1_SomeD [OF d2] digits1_SomeD [OF d3] digits1_SomeD [OF d4]
      w1(1) w2(1) w3(1)
    by (metis append_assoc)
  then have "s = det_marker g1 w1 g2 w2 g3 w3 g4 @ s9"
    by (simp add: det_marker_def)
  with digits1_SomeD [OF d1] digits1_SomeD [OF d2] digits1_SomeD [OF d3] digits1_SomeD [OF d4] w1 w2 w3
  show ?thesis by blast
qed

lemma detMatch_of_det_at: "det_at s = Some m \<Longrightarrow> detMatch s = Some m"
  by (cases s) (auto simp: det_at_def)

lemma detMatch_SomeD: "detMatch s = Some m \<Longrightarrow> \<exists>pre r. s = pre @ r \<and> det_at r = Some m"
proof (induction s)
  case Nil
  then show ?case by simp
next
  case (Cons c cs)
  show ?case
  proof (cases "det_at (c # cs)")
    case None
    with Cons obtain pre r where "cs = pre @ r" "det_at r = Some m" by auto
    then have "c # cs = (c # pre) @ r \<and> det_at r = Some m" by simp
    then show ?thesis by blast
  next
    case (Some a)
    with Cons.prems have "c # cs = [] @ (c # cs) \<and> det_at (c # cs) = Some m" by simp
    then show ?thesis by blast
  qed
qed



section \<open>Splitting around a detection marker\<close>

lemma lt_not_class: "is_digit c \<Longrightarrow> c \<noteq> CHR ''<''" "is_space c \<Longrightarrow> c \<noteq> CHR ''<''"
  by (auto simp: is_digit_def is_space_def)

lemma det_marker_open: "det_marker g1 w1 g2 w2 g3 w3 g4 = det_open g1 w1 g2 w2 g3 w3 g4 @ det_close"
  by (simp add: det_marker_def det_open_def det_close_def)

lemma digit_string_no_lt: "digit_string g \<Longrightarrow> CHR ''<'' \<notin> set g"
  unfolding digit_string_def list_all_iff using lt_not_class(1) by blast

lemma space_string_no_lt: "space_string w \<Longrightarrow> CHR ''<'' \<notin> set w"
  unfolding space_string_def list_all_iff using lt_not_class(2) by blast


lemma det_open_tl:
  assumes "digit_string g1" "digit_string g2" "digit_string g3" "digit_string g4"
    and "space_string w1" "space_string w2" "space_string w3"
  shows "\<exists>m. det_open g1 w1 g2 w2 g3 w3 g4 = CHR ''<'' # CHR ''|'' # CHR ''d'' # m \<and> CHR ''<'' \<notin> set m"
proof -
  let ?m = "''et|>[['' @ g1 @ '','' @ w1 @ g2 @ '','' @ w2 @ g3 @ '','' @ w3 @ g4 @ '']]''"
  have "det_open g1 w1 g2 w2 g3 w3 g4 = CHR ''<'' # CHR ''|'' # CHR ''d'' # ?m"
    by (simp add: det_open_def)
  moreover have "CHR ''<'' \<notin> set ?m"
    using assms(1-4) [THEN digit_string_no_lt] assms(5-7) [THEN space_string_no_lt]
    by simp
  ultimately show ?thesis by blast
qed

lemma split_ref_marker:
  assumes "digit_string g1" "digit_string g2" "digit_string g3" "digit_string g4"
    and "space_string w1" "space_string w2" "space_string w3"
  shows "split_from ref_delim piece (det_marker g1 w1 g2 w2 g3 w3 g4 @ ys)
       = split_from ref_delim (piece @ det_marker g1 w1 g2 w2 g3 w3 g4) ys"
proof -
  from det_open_tl [OF assms] obtain m where
    m: "det_open g1 w1 g2 w2 g3 w3 g4 = CHR ''<'' # CHR ''|'' # CHR ''d'' # m" "CHR ''<'' \<notin> set m"
    by blast
  have a: "split_from ref_delim c (m @ zs) = split_from ref_delim (c @ m) zs" for c zs
    by (rule split_from_skip_nohd [OF _ m(2)]) (simp add: ref_delim_def)
  have b: "split_from ref_delim c (det_close @ zs) = split_from ref_delim (c @ det_close) zs" for c zs
    by (simp add: ref_delim_def det_close_def)
  have "split_from ref_delim piece (CHR ''<'' # CHR ''|'' # CHR ''d'' # m @ det_close @ ys)
      = split_from ref_delim (piece @ ''<|d'') (m @ det_close @ ys)"
    by (simp add: ref_delim_def)
  then show ?thesis
    unfolding det_marker_open m by (simp add: a b)
qed

lemma split_close_marker:
  assumes "digit_string g1" "digit_string g2" "digit_string g3" "digit_string g4"
    and "space_string w1" "space_string w2" "space_string w3"
  shows "split_from det_close piece (det_marker g1 w1 g2 w2 g3 w3 g4 @ ys)
       = (piece @ det_open g1 w1 g2 w2 g3 w3 g4) # split_from det_close [] ys"
proof -
  from det_open_tl [OF assms] obtain m where
    m: "det_open g1 w1 g2 w2 g3 w3 g4 = CHR ''<'' # CHR ''|'' # CHR ''d'' # m" "CHR ''<'' \<notin> set m"
    by blast
  have a: "split_from det_close c (m @ zs) = split_from det_close (c @ m) zs" for c zs
    by (rule split_from_skip_nohd [OF _ m(2)]) (simp add: det_close_def)
  have b: "split_from det_close c (det_close @ zs) = c # split_from det_close [] zs" for c zs
    by (rule split_from_hit) (simp add: det_close_def)
  have "split_from det_close piece (CHR ''<'' # CHR ''|'' # CHR ''d'' # m @ det_close @ ys)
      = split_from det_close (piece @ ''<|d'') (m @ det_close @ ys)"
    by (simp add: det_close_def)
  then show ?thesis
    unfolding det_marker_open m by (simp add: a b)
qed

section \<open>Trimming and numbers\<close>

lemma trim_eq_Nil: "trim s = [] \<longleftrightarrow> list_all is_space s"
proof
  assume "trim s = []"
  then have a: "\<forall>x\<in>set (dropWhile is_space s). is_space x"
    by (simp add: trim_def dropWhile_eq_Nil_conv)
  have "dropWhile is_space s = []"
  proof (rule ccontr)
    assume ne: "dropWhile is_space s \<noteq> []"
    then have "\<not> is_space (hd (dropWhile is_space s))" by (rule hd_dropWhile)
    with a ne show False by (meson hd_in_set)
  qed
  then show "list_all is_space s"
    by (simp add: dropWhile_eq_Nil_conv list_all_iff)
next
  assume "list_all is_space s"
  then have d: "dropWhile is_space s = []"
    by (simp add: dropWhile_eq_Nil_conv list_all_iff)
  show "trim s = []" unfolding trim_def d by simp
qed

lemma bit_length_53: "bit_length (2 ^ 53) = 54"
  by (simp add: bit_length.simps)

lemma to_double_exact: "n \<le> 2 ^ 53 \<Longrightarrow> to_double n = Finite n"
proof (cases "n < 2 ^ 53")
  case True
  then show ?thesis by (simp add: to_double_def)
next
  case False
  assume "n \<le> 2 ^ 53"
  with False have n: "n = 2 ^ 53" by simp
  show ?thesis unfolding n to_double_def bit_length_53 by (simp add: Let_def)
qed

lemma parseInt_digits: "digit_string g \<Longrightarrow> parseInt g = to_double (dec g)"
  by (auto simp: parseInt_def digit_string_def list_all_iff Let_def takeWhile_eq_all_conv [THEN iffD2])

lemma bit_length_bounds: "0 < n \<Longrightarrow> 2 ^ (bit_length n - 1) \<le> n \<and> n < 2 ^ bit_length n"
proof (induction n rule: bit_length.induct)
  case (1 n)
  show ?case
  proof (cases "n div 2 = 0")
    case True
    with "1.prems" have "n = 1" by (simp add: div_eq_0_iff) 
    then show ?thesis by (simp add: bit_length.simps)
  next
    case False
    with "1.IH" "1.prems" have ih: "2 ^ (bit_length (n div 2) - 1) \<le> n div 2" "n div 2 < 2 ^ bit_length (n div 2)"
      by simp_all
    have bl: "bit_length n = Suc (bit_length (n div 2))"
      using "1.prems" by (subst bit_length.simps) simp
    have pos: "0 < bit_length (n div 2)"
      using False by (subst bit_length.simps) simp
    from ih(1) have "2 * 2 ^ (bit_length (n div 2) - 1) \<le> n" by linarith
    moreover have "2 * 2 ^ (bit_length (n div 2) - 1) = (2::nat) ^ bit_length (n div 2)"
      using pos by (cases "bit_length (n div 2)") simp_all
    moreover from ih(2) have "n < 2 * 2 ^ bit_length (n div 2)" by linarith
    ultimately show ?thesis by (simp add: bl)
  qed
qed

lemma to_double_overflow:
  assumes "2 ^ 1024 \<le> n"
  shows "to_double n = PosInfinity"
proof -
  from assms have pos: "0 < n" by (meson less_le_trans zero_less_numeral zero_less_power)
  define e where "e = bit_length n - 53"
  from bit_length_bounds [OF pos] assms have "(2::nat) ^ 1024 < 2 ^ bit_length n" by linarith
  then have bl: "1024 < bit_length n" by (simp only: power_strict_increasing_iff one_less_numeral_iff semiring_norm)
  then have e: "bit_length n - 1 = 52 + e" by (simp add: e_def)
  have "(2::nat) ^ (52 + e) \<le> n" using bit_length_bounds [OF pos] unfolding e by blast
  then have "2 ^ 52 * 2 ^ e \<le> n" by (simp only: power_add)
  then have q: "2 ^ 52 \<le> n div 2 ^ e"
    by (simp add: less_eq_div_iff_mult_less_eq)
  have big: "(2::nat) ^ 1024 \<le> 2 ^ 52 * 2 ^ e"
  proof -
    have "1024 \<le> 52 + e" using bl e by linarith
    then have "(2::nat) ^ 1024 \<le> 2 ^ (52 + e)" by (rule power_increasing) simp
    then show ?thesis by (simp add: power_add)
  qed
  have m: "2 ^ 1024 \<le> m * 2 ^ e" if "n div 2 ^ e \<le> m" for m
  proof -
    from q that have "2 ^ 52 \<le> m" by linarith
    then have "2 ^ 52 * 2 ^ e \<le> m * 2 ^ e" by simp
    with big show ?thesis by linarith
  qed
  have n53: "\<not> n < 2 ^ 53" using assms by (smt (verit) le_trans not_less power_increasing numeral_le_iff one_le_numeral semiring_norm)
  show ?thesis
    unfolding to_double_def Let_def e_def [symmetric] using n53 m by simp
qed

lemma dec_zeros: "foldl (\<lambda>n c. 10 * n + digit_val c) k (replicate m CHR ''0'') = k * 10 ^ m"
  by (induction m arbitrary: k) (simp_all add: digit_val_def)

lemma parseInt_huge: "parseInt (CHR ''1'' # replicate 309 CHR ''0'') = PosInfinity"
proof -
  have d: "takeWhile is_digit (CHR ''1'' # replicate 309 CHR ''0'') = CHR ''1'' # replicate 309 CHR ''0''"
    by (simp add: is_digit_def takeWhile_eq_all_conv [THEN iffD2])
  have one: "digit_val CHR ''1'' = 1" by (simp add: digit_val_def)
  have v: "dec (CHR ''1'' # replicate 309 CHR ''0'') = 10 ^ 309"
    unfolding dec_def foldl_Cons dec_zeros one by simp
  have "(2::nat) ^ 1024 \<le> 10 ^ 309" by simp
  then have h: "to_double (10 ^ 309) = PosInfinity" by (rule to_double_overflow)
  show ?thesis
    unfolding parseInt_def Let_def d v h by (simp only: list.distinct if_False)
qed

lemma parseInt_number: "digit_string g \<Longrightarrow> parseInt g \<noteq> NaN"
  by (simp add: parseInt_digits to_double_def Let_def)

section \<open>Rounding to a double\<close>

text \<open>
  Rounding of a natural number is what \<open>to_double\<close> does, and the clamp of a double is what
  \<open>Math.max\<close> of \<open>Math.min\<close> computes unless the value is not a number.
\<close>

lemma floor_rat_numeral: "\<lfloor>numeral a / numeral b :: rat\<rfloor> = numeral a div numeral b"
  by (metis floor_divide_of_int_eq of_int_numeral)

lemma ceiling_rat_numeral: "\<lceil>numeral a / numeral b :: rat\<rceil> = - (- numeral a div numeral b)"
  by (metis ceiling_def floor_divide_of_int_eq minus_divide_left of_int_minus of_int_numeral)

lemmas num_eval = to_number_def nearest_def scaled_def ulp_exponent_def ilog2_def
  round_half_even_def bit_length.simps floor_rat_numeral ceiling_rat_numeral

lemma to_number_not_nan: "to_number x \<noteq> NotNumber"
  by (simp add: to_number_def)

lemma to_number_samples:
  "to_number 30 = Num 30" "to_number 10 = Num 10" "to_number 48 = Num 48" "to_number 16 = Num 16"
  "to_number 36 = Num 36" "to_number 12 = Num 12" "to_number 40 = Num 40"
  "to_number (40 / 3) = Num (7505999378950827 / 562949953421312)"
  by (simp_all add: num_eval)

lemma round_half_even_of_nat: "round_half_even (of_nat N) = int N"
  by (simp add: round_half_even_def)

lemma round_half_even_quotient:
  fixes n e :: nat
  assumes "0 < e"
  shows "round_half_even (of_nat n / 2 ^ e) =
           int (if 2 ^ (e - 1) < n mod 2 ^ e \<or> (n mod 2 ^ e = 2 ^ (e - 1) \<and> odd (n div 2 ^ e))
                then n div 2 ^ e + 1 else n div 2 ^ e)"
proof -
  define q where "q = n div 2 ^ e"
  define r where "r = n mod 2 ^ e"
  define h :: nat where "h = 2 ^ (e - 1)"
  have two_h: "(2::nat) ^ e = 2 * h"
    using assms by (cases e) (simp_all add: h_def)
  have n: "n = q * 2 ^ e + r" unfolding q_def r_def by (rule div_mult_mod_eq [symmetric])
  have fl: "\<lfloor>(of_nat n :: rat) / 2 ^ e\<rfloor> = int q"
    using floor_divide_of_nat_eq [of n "2 ^ e", where ?'a = rat] by (simp add: q_def)
  have "(of_nat n :: rat) = of_nat q * 2 ^ e + of_nat r"
    by (subst n) (simp only: of_nat_add of_nat_mult of_nat_power of_nat_numeral)
  then have d: "(of_nat n :: rat) / 2 ^ e - of_int (int q) = of_nat r / 2 ^ e"
    by (simp add: field_simps)
  have hpos: "(0::rat) < of_nat h" by (simp add: h_def)
  have lt: "(of_nat r :: rat) / 2 ^ e < 1 / 2 \<longleftrightarrow> r < h"
  proof -
    have "(of_nat r :: rat) / 2 ^ e = of_nat r / (2 * of_nat h)"
      using two_h by (metis of_nat_mult of_nat_numeral of_nat_power)
    also have "\<dots> < 1 / 2 \<longleftrightarrow> (of_nat r :: rat) < of_nat h"
      using hpos by (simp add: field_simps)
    finally show ?thesis by simp
  qed
  have gt: "1 / 2 < (of_nat r :: rat) / 2 ^ e \<longleftrightarrow> h < r"
  proof -
    have "(of_nat r :: rat) / 2 ^ e = of_nat r / (2 * of_nat h)"
      using two_h by (metis of_nat_mult of_nat_numeral of_nat_power)
    also have "1 / 2 < \<dots> \<longleftrightarrow> (of_nat h :: rat) < of_nat r"
      using hpos by (simp add: field_simps)
    finally show ?thesis by simp
  qed
  show ?thesis
    unfolding round_half_even_def fl d lt gt
    unfolding q_def [symmetric] r_def [symmetric] h_def [symmetric]
    by (auto simp: not_less)
qed

lemma to_number_of_nat: "to_number (of_nat n) = number_of (to_double n)"
proof (cases "n = 0")
  case True
  then show ?thesis by (simp add: to_number_def to_double_def)
next
  case False
  then have pos: "0 < n" by simp
  define bl where "bl = bit_length n"
  from bit_length_bounds [OF pos] have b: "2 ^ (bl - 1) \<le> n" "n < 2 ^ bl"
    by (simp_all add: bl_def)
  have blpos: "0 < bl" using pos by (simp add: bl_def) (subst bit_length.simps, simp)
  have il: "ilog2 (of_nat n) = int bl - 1"
    using pos by (simp add: ilog2_def bl_def)
  have ue: "ulp_exponent (of_nat n) = int bl - 53"
    by (simp add: ulp_exponent_def il)
  have abs: "\<bar>of_nat n :: rat\<bar> = of_nat n" by simp
  have nz: "(of_nat n :: rat) \<noteq> 0" using pos by simp
  show ?thesis
  proof (cases "n < 2 ^ 53")
    case True
    have "bl \<le> 53"
    proof (rule ccontr)
      assume "\<not> bl \<le> 53"
      then have "53 \<le> bl - 1" by simp
      then have "(2::nat) ^ 53 \<le> 2 ^ (bl - 1)" by (rule power_increasing) simp
      with b(1) True show False by linarith
    qed
    define j where "j = 53 - bl"
    have k: "int bl - 53 = - int j" using \<open>bl \<le> 53\<close> by (simp add: j_def)
    have sc: "scaled (int j) (of_nat n) = (of_nat (n * 2 ^ j) :: rat)"
      by (simp add: scaled_def)
    have nr: "nearest (of_nat n) = of_nat n"
      unfolding nearest_def ue k minus_minus sc round_half_even_of_nat
      by (cases "j = 0") (simp_all add: scaled_def)
    have small: "\<not> (2::rat) ^ 1024 \<le> of_nat n"
    proof -
      have "n < 2 ^ 1024" using True by (rule less_le_trans) simp
      then have "(of_nat n :: rat) < of_nat (2 ^ 1024)" by (simp only: of_nat_less_iff)
      then show ?thesis by simp
    qed
    show ?thesis
      unfolding to_number_def abs nr using True nz small by (simp add: to_double_def)
  next
    case False
    define e where "e = bl - 53"
    have "53 < bl"
    proof (rule ccontr)
      assume "\<not> 53 < bl"
      then have "bl \<le> 53" by simp
      then have "(2::nat) ^ bl \<le> 2 ^ 53" by (rule power_increasing) simp
      with b(2) False show False by linarith
    qed
    then have epos: "0 < e" and k: "int bl - 53 = int e" by (simp_all add: e_def)
    have sc: "scaled (- int e) (of_nat n) = (of_nat n :: rat) / 2 ^ e"
      using epos by (simp add: scaled_def)
    define m where "m = (if 2 ^ (e - 1) < n mod 2 ^ e \<or> (n mod 2 ^ e = 2 ^ (e - 1) \<and> odd (n div 2 ^ e))
                then n div 2 ^ e + 1 else n div 2 ^ e)"
    have nr: "nearest (of_nat n) = (of_nat (m * 2 ^ e) :: rat)"
      unfolding nearest_def ue k sc round_half_even_quotient [OF epos] m_def [symmetric]
      by (simp add: scaled_def)
    have cmp: "(2::rat) ^ 1024 \<le> of_nat (m * 2 ^ e) \<longleftrightarrow> (2::nat) ^ 1024 \<le> m * 2 ^ e"
    proof -
      have "(2::rat) ^ 1024 = of_nat (2 ^ 1024)" by simp
      then show ?thesis by (simp only: of_nat_le_iff)
    qed
    have td: "to_double n = (if 2 ^ 1024 \<le> m * 2 ^ e then PosInfinity else Finite (m * 2 ^ e))"
      using False by (simp add: to_double_def Let_def bl_def [symmetric] e_def [symmetric] m_def)
    show ?thesis
      unfolding to_number_def abs nr cmp td using nz by simp
  qed
qed

lemma js_clamp:
  "q \<noteq> NotNumber \<Longrightarrow> \<exists>v. clamp_ext q 12 16 = Some v \<and> js_max (Num 12) (js_min (Num 16) q) = Num v"
  by (cases q) (auto simp: clamp_def)

lemma js_div_not_nan: "h \<noteq> NotNumber \<Longrightarrow> js_div h (Num 3) \<noteq> NotNumber"
  by (cases h) (simp_all add: to_number_not_nan)

lemma js_sub_not_nan:
  "y1 \<noteq> NaN \<Longrightarrow> y2 \<noteq> NaN \<Longrightarrow> \<not> (y1 = PosInfinity \<and> y2 = PosInfinity) \<Longrightarrow>
   js_sub (number_of y2) (number_of y1) \<noteq> NotNumber"
  by (cases y1; cases y2) (simp_all add: to_number_not_nan)

section \<open>The parser block by block\<close>

lemma parse_loop_eq: "parse_loop bs acc = acc @ concat (map blockRegions bs)"
  by (induction bs arbitrary: acc) auto

lemma ref_delim_ne: "ref_delim \<noteq> []" and det_close_ne: "det_close \<noteq> []"
  by (simp_all add: ref_delim_def det_close_def)

lemma parseOCRResult_eq:
  "parseOCRResult t = concat (map blockRegions (filter (\<lambda>b. trim b \<noteq> []) (split_from ref_delim [] t)))"
  by (simp add: parseOCRResult_def parse_loop_eq textBlocks_def split_def ref_delim_ne)

lemma parseOCRResult_append:
  "parseOCRResult (x @ ref_delim @ y) = parseOCRResult x @ parseOCRResult y"
  by (simp add: parseOCRResult_eq split_from_append_sep [OF unbordered_ref_delim ref_delim_ne])

lemma parseOCRResult_Nil: "parseOCRResult [] = []"
  by (simp add: parseOCRResult_eq trim_def)

lemma parseOCRResult_delim: "parseOCRResult (ref_delim @ y) = parseOCRResult y"
  using parseOCRResult_append [of "[]" y] by (simp add: parseOCRResult_Nil)




lemma wf_parts:
  assumes "well_formed b"
  shows "digit_string (int1 b)" "digit_string (int2 b)" "digit_string (int3 b)" "digit_string (int4 b)"
    "space_string (gap1 b)" "space_string (gap2 b)" "space_string (gap3 b)"
  using assms by (simp_all add: well_formed_def)

lemma body_split_ref:
  assumes "well_formed b"
  shows "split_from ref_delim [] (block_body b) = [block_body b]"
  using assms split_ref_marker [OF wf_parts [OF assms], of "[]" "trailing b"]
  by (simp add: block_body_def block_marker_def split_from_none well_formed_def)

lemma body_not_blank:
  "trim (block_body b) \<noteq> []"
  by (simp add: trim_eq_Nil block_body_def block_marker_def det_marker_def is_space_def)

lemma parseOCRResult_body:
  assumes "well_formed b"
  shows "parseOCRResult (block_body b) = blockRegions (block_body b)"
  by (simp add: parseOCRResult_eq body_split_ref [OF assms] body_not_blank)

lemma body_detMatch:
  assumes "well_formed b"
  shows "detMatch (block_body b) = Some (int1 b, int2 b, int3 b, int4 b)"
  unfolding block_body_def block_marker_def
  by (rule detMatch_of_det_at) (rule det_at_marker [OF wf_parts [OF assms]])

lemma body_textContent:
  assumes "well_formed b" "\<not> sublist det_close (trailing b)"
  shows "textContent (block_body b) = Some (trim (trailing b))"
  using assms(2) split_close_marker [OF wf_parts [OF assms(1)], of "[]" "trailing b"]
  by (simp add: textContent_def split_def det_close_ne block_body_def block_marker_def split_from_none)

lemma body_regions:
  assumes "well_formed b" "\<not> sublist det_close (trailing b)" "exact_ints b"
  shows "blockRegions (block_body b) = [region_of b]"
  using assms wf_parts [OF assms(1)]
  by (simp add: blockRegions_def body_detMatch body_textContent parseInt_digits to_double_exact
      exact_ints_def region_of_def well_formed_def)

text \<open>Unfolding the parser on a given input.\<close>

lemmas parse_eval = parseOCRResult_def textBlocks_def split_def ref_delim_def det_close_def trim_def
  is_space_def is_digit_def blockRegions_def textContent_def det_at_def digits1_def spaces_def
  parseInt_def dec_def digit_val_def to_double_def Let_def

lemmas block_eval = well_formed_def exact_ints_def digit_string_def space_string_def
  is_space_def is_digit_def dec_def digit_val_def trim_def ref_delim_def det_close_def
  sublist_code block_source_def block_body_def block_marker_def det_marker_def region_of_def

lemma marker_block_regions:
  assumes "digit_string g1" "digit_string g2" "digit_string g3" "digit_string g4"
    and "space_string w1" "space_string w2" "space_string w3"
    and "\<not> sublist det_close t" "trim t \<noteq> []"
  shows "blockRegions (det_marker g1 w1 g2 w2 g3 w3 g4 @ t)
       = [\<lparr>rtext = trim t, bbox = (parseInt g1, parseInt g2, parseInt g3, parseInt g4)\<rparr>]"
proof -
  have m: "detMatch (det_marker g1 w1 g2 w2 g3 w3 g4 @ t) = Some (g1, g2, g3, g4)"
    by (rule detMatch_of_det_at) (rule det_at_marker [OF assms(1-7)])
  have tc: "textContent (det_marker g1 w1 g2 w2 g3 w3 g4 @ t) = Some (trim t)"
    using assms(8) split_close_marker [OF assms(1-7), of "[]" t]
    by (simp add: textContent_def split_def det_close_ne split_from_none)
  show ?thesis
    using assms(9) by (simp add: blockRegions_def m tc)
qed

lemma digit_string_huge: "digit_string (CHR ''1'' # replicate 309 CHR ''0'')"
  by (simp add: digit_string_def list_all_iff is_digit_def)

lemma blockRegions_numbers:
  assumes "r \<in> set (blockRegions b)" and "bbox r = (x1, y1, x2, y2)"
  shows "x1 \<noteq> NaN \<and> y1 \<noteq> NaN \<and> x2 \<noteq> NaN \<and> y2 \<noteq> NaN"
proof (cases "detMatch b")
  case None
  with assms(1) show ?thesis by (simp add: blockRegions_def)
next
  case (Some m)
  obtain g1 g2 g3 g4 where m: "m = (g1, g2, g3, g4)" by (cases m) auto
  from detMatch_SomeD [OF Some] obtain pre s where "det_at s = Some (g1, g2, g3, g4)"
    unfolding m by blast
  from det_at_SomeD [OF this] have d: "digit_string g1" "digit_string g2" "digit_string g3" "digit_string g4"
    by blast+
  from assms(1) have "bbox r = (parseInt g1, parseInt g2, parseInt g3, parseInt g4)"
    by (auto simp: blockRegions_def Some m split: option.splits if_splits)
  with assms(2) d show ?thesis using parseInt_number by auto
qed

lemma parseOCRResult_numbers:
  assumes "r \<in> set (parseOCRResult t)" and "bbox r = (x1, y1, x2, y2)"
  shows "x1 \<noteq> NaN \<and> y1 \<noteq> NaN \<and> x2 \<noteq> NaN \<and> y2 \<noteq> NaN"
proof -
  from assms(1) obtain b where "r \<in> set (blockRegions b)"
    by (auto simp: parseOCRResult_eq)
  then show ?thesis using assms(2) by (rule blockRegions_numbers)
qed








lemma tall_regions:
  "parseOCRResult tall_text
     = [\<lparr>rtext = ''A'', bbox = (Finite 0, PosInfinity, Finite 0, PosInfinity)\<rparr>]"
proof -
  let ?h = "CHR ''1'' # replicate 309 CHR ''0''"
  let ?m = "det_marker ''0'' [] ?h [] ''0'' [] ?h"
  have z: "digit_string ''0''" "space_string []" "\<not> sublist det_close ''A''" "trim ''A'' \<noteq> []"
    "parseInt ''0'' = Finite 0" "trim ''A'' = ''A''" "\<not> sublist ref_delim ''A''"
    by (simp_all add: digit_string_def space_string_def is_digit_def is_space_def det_close_def
        ref_delim_def sublist_code trim_def parseInt_def dec_def digit_val_def to_double_def)
  have s: "split_from ref_delim [] (?m @ ''A'') = [?m @ ''A'']"
    unfolding split_ref_marker [OF z(1) digit_string_huge z(1) digit_string_huge z(2) z(2) z(2)]
      split_from_none [OF z(7)] by simp
  have n: "trim (?m @ ''A'') \<noteq> []"
    by (simp add: trim_eq_Nil det_marker_def is_space_def)
  have "parseOCRResult tall_text = blockRegions (?m @ ''A'')"
    unfolding tall_text_def parseOCRResult_delim
    by (simp add: parseOCRResult_eq s n)
  also have "\<dots> = [\<lparr>rtext = ''A'', bbox = (Finite 0, PosInfinity, Finite 0, PosInfinity)\<rparr>]"
    unfolding marker_block_regions [OF z(1) digit_string_huge z(1) digit_string_huge z(2) z(2) z(2) z(3) z(4)]
      parseInt_huge z(5) z(6) by (rule refl)
  finally show ?thesis .
qed

section \<open>The workflow step by step\<close>

lemmas setters = setSelectedFile_def setOverlayImageUrl_def setOcrResult_def setTextRegions_def
  setIsLoading_def setShowWebcam_def setStream_def

lemmas browser = createObjectURL_def revokeObjectURL_def getUserMedia_def stopTracks_def
  enqueue_def dequeue_def

lemmas handlers = cleanupOverlayImage_def resetOcrState_def handleFileSelect_def
  toBlob_callback_def createOverlayImage_def createOverlayImage_begin_def
  createOverlayImage_encoded_def handleOCR_def handleOCR_catch_def handleOCR_settled_def
  startWebcam_def startWebcam_settled_def stopWebcam_def capturePhoto_def
  capturePhoto_encoded_def downloadOverlayImage_def

lemmas world_eval = settle_def render_def Let_def handlers setters browser overlay_guard_def
  error_text_def

lemma step_keeps: "e \<noteq> Rendered \<Longrightarrow> keeps_only_current w (step w e)"
proof (cases e)
  case (FileChosen x1)
  then show ?thesis
    by (auto simp: keeps_only_current_def handlers setters browser split: option.splits)
next
  case ExtractClicked
  then show ?thesis
    by (auto simp: keeps_only_current_def handlers setters browser split: option.splits)
next
  case (FetchSettled n r)
  then show ?thesis
    by (auto simp: keeps_only_current_def settle_def handlers setters browser
        split: option.splits continuation.splits response.splits)
next
  case (OverlayClicked x4)
  then show ?thesis
    by (auto simp: keeps_only_current_def handlers setters browser split: option.splits)
next
  case (OverlayEncoded n b)
  then show ?thesis
    by (auto simp: keeps_only_current_def settle_def handlers setters browser
        split: option.splits continuation.splits)
next
  case DownloadClicked
  then show ?thesis
    by (auto simp: keeps_only_current_def handlers)
next
  case (WebcamClicked x7)
  then show ?thesis
    by (auto simp: keeps_only_current_def handlers setters browser split: option.splits)
next
  case (CameraSettled n g)
  then show ?thesis
    by (auto simp: keeps_only_current_def settle_def handlers setters browser
        split: option.splits continuation.splits)
next
  case CancelClicked
  then show ?thesis
    by (auto simp: keeps_only_current_def handlers setters browser split: option.splits)
next
  case (CaptureClicked x10)
  then show ?thesis
    by (auto simp: keeps_only_current_def handlers setters browser split: option.splits)
next
  case (SnapshotEncoded n b)
  then show ?thesis
    by (auto simp: keeps_only_current_def settle_def handlers setters browser
        split: option.splits continuation.splits)
next
  case Rendered
  assume "e \<noteq> Rendered"
  with Rendered show ?thesis by simp
qed

lemma keeps_refl: "keeps_only_current w w"
  by (simp add: keeps_only_current_def)

lemma render_fields:
  "cur (render w) = cur w" "shown (render w) = cur w"
  "object_urls (render w) =
     (if overlayImageUrl (cur w) \<noteq> overlayImageUrl (shown w)
      then object_urls w - set_option (overlayImageUrl (shown w)) else object_urls w)"
  "active_streams (render w) =
     (if stream (cur w) \<noteq> stream (shown w)
      then active_streams w - set_option (stream (shown w)) else active_streams w)"
  by (auto simp: render_def Let_def browser split: option.splits)

lemma render_settles:
  assumes "settled w" "keeps_only_current w w'"
  shows "settled (render w')"
proof -
  from assms have s: "shown w' = cur w"
    and u: "object_urls w \<subseteq> set_option (overlayImageUrl (cur w))"
           "object_urls w' \<subseteq> object_urls w \<union> set_option (overlayImageUrl (cur w'))"
    and a: "active_streams w \<subseteq> set_option (stream (cur w))"
           "active_streams w' \<subseteq> active_streams w \<union> set_option (stream (cur w'))"
    by (simp_all add: settled_def keeps_only_current_def)
  have "object_urls (render w') \<subseteq> set_option (overlayImageUrl (cur w'))"
    unfolding render_fields s using u by (cases "overlayImageUrl (cur w') = overlayImageUrl (cur w)") auto
  moreover have "active_streams (render w') \<subseteq> set_option (stream (cur w'))"
    unfolding render_fields s using a by (cases "stream (cur w') = stream (cur w)") auto
  ultimately show ?thesis by (simp add: settled_def render_fields)
qed

lemma settled_initial: "settled initial_world"
  by (simp add: settled_def initial_world_def)

lemma settled_step:
  assumes "settled w"
  shows "settled (render (step w e))"
proof (cases "e = Rendered")
  case True
  have "settled (render w)" by (rule render_settles [OF assms keeps_refl])
  then have "settled (render (render w))" by (rule render_settles [OF _ keeps_refl])
  with True show ?thesis by simp
next
  case False
  then show ?thesis by (rule render_settles [OF assms step_keeps])
qed

lemma settled_rendered_run: "settled (rendered_run evs)"
proof (induction evs rule: rev_induct)
  case Nil
  then show ?case by (simp add: rendered_run_def settled_initial)
next
  case (snoc e evs)
  then show ?case by (simp add: rendered_run_def settled_step)
qed

lemma card_subset_option: "A \<subseteq> set_option x \<Longrightarrow> card A \<le> 1"
  by (cases x) (auto simp: subset_singleton_iff)

text \<open>The sample runs.\<close>

lemma run_append: "run (xs @ ys) = foldl step (run xs) ys"
  by (simp add: run_def)

lemma one_region: "parseOCRResult one_region_text
    = [\<lparr>rtext = ''Hello'', bbox = (Finite 10, Finite 20, Finite 110, Finite 60)\<rparr>]"
  by (simp add: one_region_text_def parse_eval)

lemma run_extracted:
  "run extracted_trace =
     \<lparr>cur = \<lparr>selectedFile = Some ''a.png'', overlayImageUrl = None, ocrResult = one_region_text,
              textRegions = [\<lparr>rtext = ''Hello'', bbox = (Finite 10, Finite 20, Finite 110, Finite 60)\<rparr>],
              isLoading = False, showWebcam = False, stream = None\<rparr>,
      shown = \<lparr>selectedFile = Some ''a.png'', overlayImageUrl = None, ocrResult = one_region_text,
              textRegions = [\<lparr>rtext = ''Hello'', bbox = (Finite 10, Finite 20, Finite 110, Finite 60)\<rparr>],
              isLoading = False, showWebcam = False, stream = None\<rparr>,
      pending = [], object_urls = {}, next_url = 0, active_streams = {}, next_stream = 0\<rparr>"
  by (simp add: run_def extracted_trace_def initial_world_def
      initial_session_def settle_def render_def Let_def handlers setters browser one_region)

lemma run_overlay:
  "run overlay_trace =
     \<lparr>cur = \<lparr>selectedFile = Some ''a.png'', overlayImageUrl = Some 0, ocrResult = one_region_text,
              textRegions = [\<lparr>rtext = ''Hello'', bbox = (Finite 10, Finite 20, Finite 110, Finite 60)\<rparr>],
              isLoading = False, showWebcam = False, stream = None\<rparr>,
      shown = \<lparr>selectedFile = Some ''a.png'', overlayImageUrl = Some 0, ocrResult = one_region_text,
              textRegions = [\<lparr>rtext = ''Hello'', bbox = (Finite 10, Finite 20, Finite 110, Finite 60)\<rparr>],
              isLoading = False, showWebcam = False, stream = None\<rparr>,
      pending = [], object_urls = {0}, next_url = 1, active_streams = {}, next_stream = 0\<rparr>"
  unfolding overlay_trace_def run_append run_extracted
  by (simp add: world_eval)

lemma not_error_text: "\<not> is_error one_region_text" "one_region_text \<noteq> []"
  by (simp_all add: is_error_def one_region_text_def)

lemma run_with_renders: "run (with_renders evs) = rendered_run evs"
  by (induction evs rule: rev_induct) (simp_all add: with_renders_def run_def rendered_run_def)

lemma run_tall:
  "textRegions (shown (run tall_trace))
     = [\<lparr>rtext = ''A'', bbox = (Finite 0, PosInfinity, Finite 0, PosInfinity)\<rparr>]"
  by (simp add: run_def tall_trace_def initial_world_def
      initial_session_def settle_def render_def Let_def handlers setters browser tall_regions)

text \<open>The regions of the state are regions that the parser made.\<close>

lemma step_regions:
  "set (textRegions (cur (step w e))) \<subseteq> set (textRegions (cur w)) \<union> (\<Union>t. set (parseOCRResult t))"
proof (cases e)
  case (FileChosen x1)
  then show ?thesis
    by (auto simp: handlers setters browser split: option.splits)
next
  case ExtractClicked
  then show ?thesis
    by (auto simp: handlers setters browser split: option.splits)
next
  case (FetchSettled n r)
  then show ?thesis
    by (auto simp: settle_def handlers setters browser
        split: option.splits continuation.splits response.splits if_splits)
next
  case (OverlayClicked x4)
  then show ?thesis
    by (auto simp: handlers setters browser split: option.splits)
next
  case (OverlayEncoded n b)
  then show ?thesis
    by (auto simp: settle_def handlers setters browser
        split: option.splits continuation.splits)
next
  case DownloadClicked
  then show ?thesis
    by (auto simp: handlers)
next
  case (WebcamClicked x7)
  then show ?thesis
    by (auto simp: handlers setters browser split: option.splits)
next
  case (CameraSettled n g)
  then show ?thesis
    by (auto simp: settle_def handlers setters browser
        split: option.splits continuation.splits)
next
  case CancelClicked
  then show ?thesis
    by (auto simp: handlers setters browser split: option.splits)
next
  case (CaptureClicked x10)
  then show ?thesis
    by (auto simp: handlers setters browser split: option.splits)
next
  case (SnapshotEncoded n b)
  then show ?thesis
    by (auto simp: settle_def handlers setters browser
        split: option.splits continuation.splits)
next
  case Rendered
  then show ?thesis by (simp add: render_fields)
qed

lemma step_shown_regions:
  "textRegions (shown (step w e)) = textRegions (shown w) \<or>
   textRegions (shown (step w e)) = textRegions (cur w)"
proof (cases "e = Rendered")
  case True
  then show ?thesis by (simp add: render_fields)
next
  case False
  from step_keeps [OF this] show ?thesis by (simp add: keeps_only_current_def)
qed

lemma run_regions:
  "set (textRegions (cur (run evs))) \<union> set (textRegions (shown (run evs)))
     \<subseteq> (\<Union>t. set (parseOCRResult t))"
proof (induction evs rule: rev_induct)
  case Nil
  then show ?case by (simp add: run_def initial_world_def initial_session_def)
next
  case (snoc e evs)
  have r: "run (evs @ [e]) = step (run evs) e" by (simp add: run_def)
  from step_regions [of "run evs" e] step_shown_regions [of "run evs" e] snoc
  show ?case unfolding r by auto
qed

lemma drawn_regions_parsed:
  "r \<in> set (textRegions (shown (run evs))) \<Longrightarrow> \<exists>t. r \<in> set (parseOCRResult t)"
  using run_regions [of evs] by auto

section \<open>Claims about the marker parser\<close>

text \<open>
  C1 (parse completeness), as amended.  An input made of \<open>N\<close> well-formed blocks, each the
  delimiter, a detection marker and a trailing text that is not blank, is parsed into exactly
  \<open>N\<close> regions in the order of the blocks; the text of each region is the trimmed trailing
  text and its box holds the four integers, provided that no trailing text holds the closing tag
  \<open><|/det|>\<close> and that every integer is at most \<open>2^53\<close>.
\<close>

theorem parse_blocks:
  assumes "\<forall>b\<in>set bs. well_formed b \<and> \<not> sublist det_close (trailing b) \<and> exact_ints b"
  shows "parseOCRResult (concat (map block_source bs)) = map region_of bs"
  using assms
proof (induction bs)
  case Nil
  then show ?case by (simp add: parseOCRResult_Nil)
next
  case (Cons b bs)
  then have b: "well_formed b" "\<not> sublist det_close (trailing b)" "exact_ints b"
    and ih: "parseOCRResult (concat (map block_source bs)) = map region_of bs"
    by simp_all
  have head: "parseOCRResult (block_body b) = [region_of b]"
    by (simp add: parseOCRResult_body b body_regions)
  have step: "parseOCRResult (block_body b @ concat (map block_source bs)) = region_of b # map region_of bs"
  proof (cases bs)
    case Nil
    then show ?thesis using head by simp
  next
    case (Cons b' bs')
    then have "concat (map block_source bs) = ref_delim @ block_body b' @ concat (map block_source bs')"
      by (simp add: block_source_def)
    then have "parseOCRResult (block_body b @ concat (map block_source bs))
        = parseOCRResult (block_body b) @ parseOCRResult (block_body b' @ concat (map block_source bs'))"
      by (simp add: parseOCRResult_append)
    also have "parseOCRResult (block_body b' @ concat (map block_source bs'))
        = parseOCRResult (concat (map block_source bs))"
      using Cons by (simp add: block_source_def parseOCRResult_delim)
    finally show ?thesis using head ih by simp
  qed
  have "concat (map block_source (b # bs)) = ref_delim @ block_body b @ concat (map block_source bs)"
    by (simp add: block_source_def)
  then show ?case
    by (simp only: parseOCRResult_delim step list.map)
qed

text \<open>The example of the specification satisfies the hypotheses, and is parsed as it says.\<close>

theorem parse_blocks_witness:
  "list_all (\<lambda>b. well_formed b \<and> \<not> sublist det_close (trailing b) \<and> exact_ints b) spec_example \<and>
   parseOCRResult
     ''<|ref|>text<|/ref|><|det|>[[10,20,110,60]]<|/det|>Hello<|ref|>text<|/ref|><|det|>[[5,5,50,50]]<|/det|>World''
   = [\<lparr>rtext = ''Hello'', bbox = (Finite 10, Finite 20, Finite 110, Finite 60)\<rparr>,
      \<lparr>rtext = ''World'', bbox = (Finite 5, Finite 5, Finite 50, Finite 50)\<rparr>]"
proof -
  have h: "\<forall>b\<in>set spec_example. well_formed b \<and> \<not> sublist det_close (trailing b) \<and> exact_ints b"
    by (simp add: spec_example_def block_eval)
  from parse_blocks [OF h] h show ?thesis
    by (simp add: spec_example_def block_eval)
qed

text \<open>
  Without the two provisos C1 fails.  The integer \<open>2^53 + 1\<close> is stored as \<open>2^53\<close>, and a
  trailing text \<open>Hello<|/det|>World\<close> is cut at its closing tag.
\<close>

theorem parse_blocks_counterexample:
  "well_formed \<lparr>int1 = ''9007199254740993'', gap1 = [], int2 = ''2'', gap2 = [], int3 = ''3'',
      gap3 = [], int4 = ''4'', trailing = ''Hello''\<rparr> \<and>
   parseOCRResult ''<|ref|>text<|/ref|><|det|>[[9007199254740993,2,3,4]]<|/det|>Hello''
     = [\<lparr>rtext = ''Hello'', bbox = (Finite 9007199254740992, Finite 2, Finite 3, Finite 4)\<rparr>] \<and>
   well_formed \<lparr>int1 = ''1'', gap1 = [], int2 = ''2'', gap2 = [], int3 = ''3'',
      gap3 = [], int4 = ''4'', trailing = ''Hello<|/det|>World''\<rparr> \<and>
   parseOCRResult ''<|ref|>text<|/ref|><|det|>[[1,2,3,4]]<|/det|>Hello<|/det|>World''
     = [\<lparr>rtext = ''Hello'', bbox = (Finite 1, Finite 2, Finite 3, Finite 4)\<rparr>]"
  by (simp add: block_eval parse_eval bit_length.simps)

text \<open>
  C6 (text content).  The claim says that the text of a region is everything after the first
  closing tag \<open><|/det|>\<close>, a later detection marker included.  The parser takes the second
  piece of the block split at the closing tag, so the text ends where the next closing tag
  begins: of \<open>Hello<|det|>[[5,6,7,8]]<|/det|>World\<close> only \<open>Hello<|det|>[[5,6,7,8]]\<close> is kept.
\<close>

theorem text_content_stops_at_second_close:
  "parseOCRResult ''<|ref|>text<|/ref|><|det|>[[1,2,3,4]]<|/det|>Hello<|det|>[[5,6,7,8]]<|/det|>World''
     = [\<lparr>rtext = ''Hello<|det|>[[5,6,7,8]]'', bbox = (Finite 1, Finite 2, Finite 3, Finite 4)\<rparr>]"
  by (simp add: parse_eval)




text \<open>
  C9 (box order), as amended.  A block that begins with a detection marker whose four integers
  are each at most \<open>2^53\<close>, followed by a text that is not blank and holds no closing tag,
  yields one region whose box is the four integers in the order of the marker.  Nothing
  compares them: \<open>x1\<close> may exceed \<open>x2\<close>, and \<open>y1\<close> may exceed \<open>y2\<close>.
\<close>

theorem bbox_in_order_unchecked:
  assumes "digit_string g1" "digit_string g2" "digit_string g3" "digit_string g4"
    and "space_string w1" "space_string w2" "space_string w3"
    and "dec g1 \<le> 2 ^ 53" "dec g2 \<le> 2 ^ 53" "dec g3 \<le> 2 ^ 53" "dec g4 \<le> 2 ^ 53"
    and "\<not> sublist det_close t" "trim t \<noteq> []"
  shows "blockRegions (det_marker g1 w1 g2 w2 g3 w3 g4 @ t)
       = [\<lparr>rtext = trim t, bbox = (Finite (dec g1), Finite (dec g2), Finite (dec g3), Finite (dec g4))\<rparr>]"
proof -
  have m: "detMatch (det_marker g1 w1 g2 w2 g3 w3 g4 @ t) = Some (g1, g2, g3, g4)"
    by (rule detMatch_of_det_at) (rule det_at_marker [OF assms(1-7)])
  have tc: "textContent (det_marker g1 w1 g2 w2 g3 w3 g4 @ t) = Some (trim t)"
    using assms(12) split_close_marker [OF assms(1-7), of "[]" t]
    by (simp add: textContent_def split_def det_close_ne split_from_none)
  show ?thesis
    using assms(1-4) assms(8-11) assms(13)
    by (simp add: blockRegions_def m tc parseInt_digits to_double_exact)
qed

text \<open>A marker with \<open>x1 = 110 > x2 = 10\<close> and \<open>y1 = 60 > y2 = 20\<close>.\<close>

theorem bbox_in_order_unchecked_witness:
  "digit_string ''110'' \<and> digit_string ''60'' \<and> digit_string ''10'' \<and> digit_string ''20'' \<and>
   space_string '' '' \<and> space_string [] \<and>
   dec ''110'' = 110 \<and> dec ''60'' = 60 \<and> dec ''10'' = 10 \<and> dec ''20'' = 20 \<and>
   \<not> sublist det_close ''Hello'' \<and> trim ''Hello'' \<noteq> [] \<and>
   blockRegions ''<|det|>[[110, 60,10,20]]<|/det|>Hello''
     = [\<lparr>rtext = ''Hello'', bbox = (Finite 110, Finite 60, Finite 10, Finite 20)\<rparr>]"
proof -
  have d: "digit_string ''110''" "digit_string ''60''" "digit_string ''10''" "digit_string ''20''"
    by (simp_all add: digit_string_def is_digit_def)
  have s: "space_string '' ''" "space_string []"
    by (simp_all add: space_string_def is_space_def)
  have v: "dec ''110'' = 110" "dec ''60'' = 60" "dec ''10'' = 10" "dec ''20'' = 20"
    by (simp_all add: dec_def digit_val_def)
  have t: "\<not> sublist det_close ''Hello''" "trim ''Hello'' \<noteq> []"
    by (simp_all add: det_close_def sublist_code trim_def is_space_def)
  from bbox_in_order_unchecked [OF d s(1) s(2) s(2) _ _ _ _ t] v
  have "blockRegions (det_marker ''110'' '' '' ''60'' [] ''10'' [] ''20'' @ ''Hello'')
     = [\<lparr>rtext = trim ''Hello'', bbox = (Finite 110, Finite 60, Finite 10, Finite 20)\<rparr>]"
    by simp
  then show ?thesis using d s v t
    by (simp add: det_marker_def trim_def is_space_def)
qed

text \<open>Above \<open>2^53\<close> the stored number need not be the integer of the marker.\<close>

theorem bbox_in_order_unchecked_counterexample:
  "digit_string ''9007199254740993'' \<and> dec ''9007199254740993'' = 9007199254740993 \<and>
   blockRegions ''<|det|>[[7,9007199254740993,5,4]]<|/det|>A''
     = [\<lparr>rtext = ''A'', bbox = (Finite 7, Finite 9007199254740992, Finite 5, Finite 4)\<rparr>]"
  by (simp add: digit_string_def parse_eval bit_length.simps)

section \<open>Claims about the compositor\<close>

text \<open>
  C8 (label size clamp), as amended.  The compositor draws the regions of a render.  For
  each of them, for every region that the parser yields and for every other region whose
  \<open>y1\<close> and \<open>y2\<close> are numbers, unless \<open>y1\<close> and \<open>y2\<close> are both infinite, the font size of
  the label is \<open>clamp(q, 12, 16)\<close>, where \<open>q\<close> is \<open>(y2 - y1) / 3\<close> computed on doubles:
  the difference and the quotient are each rounded to the nearest double, and an infinite
  \<open>q\<close> is clamped to the bound on its side.  A region of height 30 gets 12, one of height 48
  gets 16 and one of height 36 gets 12.
\<close>

theorem label_font_size:
  assumes "bbox r = (x1, y1, x2, y2)"
    and "r \<in> set (textRegions (shown (run evs))) \<or> r \<in> set (parseOCRResult s) \<or>
         y1 \<noteq> NaN \<and> y2 \<noteq> NaN"
    and "\<not> (y1 = PosInfinity \<and> y2 = PosInfinity)"
  shows "(\<exists>v. clamp_ext (third_of_height r) 12 16 = Some v \<and> fontSize r = Num v) \<and>
         fontSize \<lparr>rtext = t, bbox = (a1, Finite n, a2, Finite (n + 30))\<rparr> = Num 12 \<and>
         fontSize \<lparr>rtext = t, bbox = (a1, Finite n, a2, Finite (n + 48))\<rparr> = Num 16 \<and>
         fontSize \<lparr>rtext = t, bbox = (a1, Finite n, a2, Finite (n + 36))\<rparr> = Num 12"
proof -
  from assms(2) have y: "y1 \<noteq> NaN \<and> y2 \<noteq> NaN"
    using parseOCRResult_numbers [OF _ assms(1)] drawn_regions_parsed [of r evs] by blast
  have "third_of_height r \<noteq> NotNumber"
    using assms(1,3) y by (simp add: third_of_height_def js_div_not_nan js_sub_not_nan)
  from js_clamp [OF this] have "\<exists>v. clamp_ext (third_of_height r) 12 16 = Some v \<and> fontSize r = Num v"
    using assms(1) by (simp add: third_of_height_def fontSize_def)
  moreover have "fontSize \<lparr>rtext = t, bbox = (a1, Finite n, a2, Finite (n + 30))\<rparr> = Num 12"
    by (simp add: fontSize_def to_number_samples)
  moreover have "fontSize \<lparr>rtext = t, bbox = (a1, Finite n, a2, Finite (n + 48))\<rparr> = Num 16"
    by (simp add: fontSize_def to_number_samples)
  moreover have "fontSize \<lparr>rtext = t, bbox = (a1, Finite n, a2, Finite (n + 36))\<rparr> = Num 12"
    by (simp add: fontSize_def to_number_samples)
  ultimately show ?thesis by blast
qed

text \<open>
  The region of the sample run, drawn after the extraction, has height 40: the third of it is
  rounded.
\<close>

theorem label_font_size_witness:
  "textRegions (shown (run extracted_trace))
     = [\<lparr>rtext = ''Hello'', bbox = (Finite 10, Finite 20, Finite 110, Finite 60)\<rparr>] \<and>
   Finite 20 \<noteq> PosInfinity \<and>
   third_of_height \<lparr>rtext = ''Hello'', bbox = (Finite 10, Finite 20, Finite 110, Finite 60)\<rparr>
     = Num (7505999378950827 / 562949953421312) \<and>
   clamp_ext (Num (7505999378950827 / 562949953421312)) 12 16 = Some (7505999378950827 / 562949953421312) \<and>
   fontSize \<lparr>rtext = ''Hello'', bbox = (Finite 10, Finite 20, Finite 110, Finite 60)\<rparr>
     = Num (7505999378950827 / 562949953421312)"
proof -
  let ?r = "\<lparr>rtext = ''Hello'', bbox = (Finite 10, Finite 20, Finite 110, Finite 60)\<rparr>"
  have d: "textRegions (shown (run extracted_trace)) = [?r]"
    by (simp add: run_extracted)
  then have p: "?r \<in> set (textRegions (shown (run extracted_trace)))"
    by simp
  have q: "third_of_height ?r = Num (7505999378950827 / 562949953421312)"
    by (simp add: third_of_height_def to_number_samples)
  have c: "clamp_ext (Num (7505999378950827 / 562949953421312)) 12 16 = Some (7505999378950827 / 562949953421312)"
    by (simp add: clamp_def)
  from label_font_size [of ?r "Finite 10" "Finite 20" "Finite 110" "Finite 60" extracted_trace] p
  have "\<exists>v. clamp_ext (third_of_height ?r) 12 16 = Some v \<and> fontSize ?r = Num v"
    by simp
  then obtain v where v: "clamp_ext (third_of_height ?r) 12 16 = Some v" "fontSize ?r = Num v"
    by blast
  from v(1) have "Some v = Some (7505999378950827 / 562949953421312)"
    unfolding q c by (rule sym)
  then have "v = 7505999378950827 / 562949953421312"
    by (simp only: option.inject)
  with v(2) have "fontSize ?r = Num (7505999378950827 / 562949953421312)"
    by (simp only:)
  with q c d show ?thesis by simp
qed

text \<open>
  A marker whose \<open>y1\<close> and \<open>y2\<close> have 310 digits gives a region with both infinite, which
  a render then shows; their difference is not a number, and neither is the font size.  For
  the height 40 the font size is the double nearest to \<open>40 / 3\<close>, not \<open>40 / 3\<close>.
\<close>

theorem font_size_not_a_number:
  "textRegions (shown (run tall_trace))
     = [\<lparr>rtext = ''A'', bbox = (Finite 0, PosInfinity, Finite 0, PosInfinity)\<rparr>] \<and>
   fontSize \<lparr>rtext = ''A'', bbox = (Finite 0, PosInfinity, Finite 0, PosInfinity)\<rparr> = NotNumber \<and>
   clamp_ext (third_of_height \<lparr>rtext = ''A'', bbox = (Finite 0, PosInfinity, Finite 0, PosInfinity)\<rparr>) 12 16
     = None \<and>
   fontSize \<lparr>rtext = ''Hello'', bbox = (Finite 10, Finite 20, Finite 110, Finite 60)\<rparr>
     = Num (7505999378950827 / 562949953421312) \<and>
   (7505999378950827 / 562949953421312 :: rat) \<noteq> clamp (40 / 3) 12 16"
proof -
  have 2: "fontSize \<lparr>rtext = ''A'', bbox = (Finite 0, PosInfinity, Finite 0, PosInfinity)\<rparr> = NotNumber"
    by (simp add: fontSize_def)
  have 3: "clamp_ext (third_of_height \<lparr>rtext = ''A'', bbox = (Finite 0, PosInfinity, Finite 0, PosInfinity)\<rparr>) 12 16
     = None"
    by (simp add: third_of_height_def)
  have 4: "fontSize \<lparr>rtext = ''Hello'', bbox = (Finite 10, Finite 20, Finite 110, Finite 60)\<rparr>
     = Num (7505999378950827 / 562949953421312)"
    by (simp add: fontSize_def to_number_samples)
  have 5: "(7505999378950827 / 562949953421312 :: rat) \<noteq> clamp (40 / 3) 12 16"
    by (simp add: clamp_def)
  from run_tall 2 3 4 5 show ?thesis by (intro conjI)
qed


section \<open>Claims about the workflow\<close>

text \<open>
  C2 (reset atomicity), as amended.  When a new source image is committed (a file is chosen,
  or a captured photo is encoded) and when an extraction attempt fails, one step of the handler
  leaves the result text empty or an error text, no region and no overlay handle, provided the
  overlay handle that the handler read from its render is the current one.  When an extraction
  attempt begins nothing is reset: the result text, the regions and the overlay handle stay
  as they are.
\<close>

theorem reset_on_commit_and_failure:
  assumes "overlayImageUrl c = overlayImageUrl (cur w)"
  shows "cleared (handleFileSelect c (Some f) w) \<and>
         cleared (capturePhoto_encoded c True w) \<and>
         (failed r \<longrightarrow> cleared (handleOCR_settled c r w)) \<and>
         ocrResult (cur (handleOCR c w)) = ocrResult (cur w) \<and>
         textRegions (cur (handleOCR c w)) = textRegions (cur w) \<and>
         overlayImageUrl (cur (handleOCR c w)) = overlayImageUrl (cur w)"
  using assms
  by (auto simp: cleared_def failed_def is_error_def handlers setters browser error_text_def
      split: option.splits response.splits)

theorem reset_on_commit_and_failure_witness:
  "overlayImageUrl (shown (run overlay_trace)) = overlayImageUrl (cur (run overlay_trace)) \<and>
   overlayImageUrl (cur (run overlay_trace)) = Some 0 \<and>
   cleared (handleFileSelect (shown (run overlay_trace)) (Some ''b.png'') (run overlay_trace)) \<and>
   failed (FetchJson False None (Some ''model not loaded'')) \<and>
   cleared (handleOCR_settled (shown (run overlay_trace))
     (FetchJson False None (Some ''model not loaded'')) (run overlay_trace)) \<and>
   ocrResult (cur (handleOCR_settled (shown (run overlay_trace))
     (FetchJson False None (Some ''model not loaded'')) (run overlay_trace))) = ''Error: model not loaded''"
proof -
  have h: "overlayImageUrl (shown (run overlay_trace)) = overlayImageUrl (cur (run overlay_trace))"
    by (simp add: run_overlay)
  have f: "failed (FetchJson False None (Some ''model not loaded''))"
    by (simp add: failed_def)
  from reset_on_commit_and_failure [OF h, of "''b.png''" "FetchJson False None (Some ''model not loaded'')"] f h
  show ?thesis
    by (simp add: run_overlay world_eval)
qed

text \<open>
  After a file is chosen, its text extracted, an overlay made and a second extraction started,
  the attempt is in progress and the old text, region and overlay handle are all still there.
\<close>

theorem no_reset_when_extraction_begins:
  "isLoading (cur (run restart_trace)) \<and>
   ocrResult (cur (run restart_trace)) = one_region_text \<and>
   length (textRegions (cur (run restart_trace))) = 1 \<and>
   overlayImageUrl (cur (run restart_trace)) = Some 0 \<and>
   \<not> cleared (run restart_trace)"
  unfolding restart_trace_def run_append run_overlay
  by (simp add: world_eval cleared_def not_error_text)

text \<open>
  C3 (resource bound), as amended.  In a run in which a render is committed after each event,
  at every instant after a render the browser holds no overlay URL and no stream but the
  current one of the state, so at most one of each is live.  Making a new instance releases
  nothing; in such a run the instance it replaces is released by the clean-up of the effect at
  the render that follows, as after the second overlay and the second stream of the sample
  runs.
\<close>

theorem rendered_resource_bound:
  "run (with_renders evs) = rendered_run evs \<and>
   shown (run (with_renders evs)) = cur (run (with_renders evs)) \<and>
   object_urls (run (with_renders evs)) \<subseteq> set_option (overlayImageUrl (cur (run (with_renders evs)))) \<and>
   active_streams (run (with_renders evs)) \<subseteq> set_option (stream (cur (run (with_renders evs)))) \<and>
   card (object_urls (run (with_renders evs))) \<le> 1 \<and>
   card (active_streams (run (with_renders evs))) \<le> 1 \<and>
   object_urls w \<subseteq> object_urls (createOverlayImage_encoded True w) \<and>
   active_streams w \<subseteq> active_streams (startWebcam_settled True w) \<and>
   object_urls (run (double_click_trace @ [Rendered])) = {1} \<and>
   active_streams (run (double_start_trace @ [Rendered])) = {1}"
proof -
  have s: "settled (run (with_renders evs))"
    unfolding run_with_renders by (rule settled_rendered_run)
  then have b: "shown (run (with_renders evs)) = cur (run (with_renders evs))"
    "object_urls (run (with_renders evs)) \<subseteq> set_option (overlayImageUrl (cur (run (with_renders evs))))"
    "active_streams (run (with_renders evs)) \<subseteq> set_option (stream (cur (run (with_renders evs))))"
    by (simp_all add: settled_def)
  have c: "card (object_urls (run (with_renders evs))) \<le> 1"
    "card (active_streams (run (with_renders evs))) \<le> 1"
    by (rule card_subset_option [OF b(2)], rule card_subset_option [OF b(3)])
  have n: "object_urls w \<subseteq> object_urls (createOverlayImage_encoded True w)"
    "active_streams w \<subseteq> active_streams (startWebcam_settled True w)"
    by (auto simp: handlers setters browser)
  have d1: "object_urls (run (double_click_trace @ [Rendered])) = {1}"
    unfolding double_click_trace_def run_append run_extracted
    by (auto simp: world_eval)
  have d2: "active_streams (run (double_start_trace @ [Rendered])) = {1}"
    unfolding double_start_trace_def run_def
    by (auto simp: world_eval initial_world_def initial_session_def)
  show ?thesis
    using run_with_renders b c n d1 d2 by simp
qed

text \<open>
  Before the change is rendered two instances are live: two overlay URLs after the overlay
  button was clicked twice, two streams after the camera button was clicked twice.  When both
  pending operations settle before the next render, the two instances are still live after
  that render, with nothing pending.
\<close>

theorem two_live_instances:
  "object_urls (run double_click_trace) = {0, 1} \<and> card (object_urls (run double_click_trace)) = 2 \<and>
   active_streams (run double_start_trace) = {0, 1} \<and> card (active_streams (run double_start_trace)) = 2 \<and>
   object_urls (run leaked_overlay_trace) = {0, 1} \<and>
   shown (run leaked_overlay_trace) = cur (run leaked_overlay_trace) \<and>
   pending (run leaked_overlay_trace) = [] \<and>
   overlayImageUrl (cur (run leaked_overlay_trace)) = Some 1 \<and>
   active_streams (run leaked_stream_trace) = {0, 1} \<and>
   shown (run leaked_stream_trace) = cur (run leaked_stream_trace) \<and>
   pending (run leaked_stream_trace) = [] \<and>
   stream (cur (run leaked_stream_trace)) = Some 1"
proof -
  have 1: "object_urls (run double_click_trace) = {0, 1}"
    unfolding double_click_trace_def run_append run_extracted
    by (simp add: world_eval insert_commute)
  have 2: "active_streams (run double_start_trace) = {0, 1}"
    unfolding double_start_trace_def run_def
    by (simp add: world_eval initial_world_def initial_session_def insert_commute)
  have 3: "object_urls (run leaked_overlay_trace) = {0, 1}"
    "shown (run leaked_overlay_trace) = cur (run leaked_overlay_trace)"
    "pending (run leaked_overlay_trace) = []"
    "overlayImageUrl (cur (run leaked_overlay_trace)) = Some 1"
    unfolding leaked_overlay_trace_def run_append run_extracted
    by (simp_all add: world_eval insert_commute)
  have 4: "active_streams (run leaked_stream_trace) = {0, 1}"
    "shown (run leaked_stream_trace) = cur (run leaked_stream_trace)"
    "pending (run leaked_stream_trace) = []"
    "stream (cur (run leaked_stream_trace)) = Some 1"
    unfolding leaked_stream_trace_def run_def
    by (simp_all add: world_eval initial_world_def initial_session_def insert_commute)
  show ?thesis unfolding 1 2 3 4 by simp
qed


text \<open>
  C4 (failed extraction).  The claim says that a failed attempt leaves an error text, no region
  and no live overlay handle.  The handler releases the overlay handle of the render that
  started the attempt.  When an overlay is made while the request is pending, that handle is
  none, and after the failure the new overlay is still current and live, beside the error text
  and the empty regions.
\<close>

theorem failed_attempt_keeps_new_overlay:
  "ocrResult (cur (run stale_overlay_trace)) = ''Error: Failed to connect to OCR service'' \<and>
   textRegions (cur (run stale_overlay_trace)) = [] \<and>
   isLoading (cur (run stale_overlay_trace)) = False \<and>
   pending (run stale_overlay_trace) = [] \<and>
   overlayImageUrl (cur (run stale_overlay_trace)) = Some 0 \<and>
   object_urls (run stale_overlay_trace) = {0}"
  unfolding stale_overlay_trace_def run_append run_extracted
  by (simp add: world_eval)

text \<open>
  C5 (compositor failure), as amended.  When no drawing context is obtained the operation
  resolves with no handle and changes nothing, as it does when it declines to start; when the
  image does not load, or the encoding yields no blob, its promise never settles and nothing
  changes.  It never rejects.
\<close>

theorem compose_failure_is_silent:
  assumes "overlay_guard c"
  shows "(\<not> ctx_ok env \<longrightarrow> createOverlayImage c env w = (Resolved None, w)) \<and>
         (ctx_ok env \<and> (\<not> decode_ok env \<or> \<not> blob_ok env) \<longrightarrow> createOverlayImage c env w = (Unsettled, w)) \<and>
         fst (createOverlayImage c env w) \<noteq> Rejected"
  using assms by (auto simp: createOverlayImage_def toBlob_callback_def createObjectURL_def split: prod.splits)

theorem compose_failure_is_silent_witness:
  "overlay_guard (shown (run extracted_trace)) \<and>
   createOverlayImage (shown (run extracted_trace)) \<lparr>ctx_ok = False, decode_ok = True, blob_ok = True\<rparr>
      (run extracted_trace) = (Resolved None, run extracted_trace) \<and>
   createOverlayImage (shown (run extracted_trace)) \<lparr>ctx_ok = True, decode_ok = False, blob_ok = True\<rparr>
      (run extracted_trace) = (Unsettled, run extracted_trace)"
proof -
  have g: "overlay_guard (shown (run extracted_trace))"
    by (simp add: run_extracted overlay_guard_def)
  from compose_failure_is_silent [OF g, of "\<lparr>ctx_ok = False, decode_ok = True, blob_ok = True\<rparr>" "run extracted_trace"]
    compose_failure_is_silent [OF g, of "\<lparr>ctx_ok = True, decode_ok = False, blob_ok = True\<rparr>" "run extracted_trace"] g
  show ?thesis by simp
qed

text \<open>
  There is no failure indicator: without a drawing context the outcome is the outcome of a
  call that had nothing to do, and with an image that does not load there is no outcome.
\<close>

theorem no_failure_indicator:
  "createOverlayImage (shown (run extracted_trace)) \<lparr>ctx_ok = False, decode_ok = True, blob_ok = True\<rparr>
      (run extracted_trace)
     = createOverlayImage initial_session \<lparr>ctx_ok = True, decode_ok = True, blob_ok = True\<rparr>
      (run extracted_trace) \<and>
   fst (createOverlayImage (shown (run extracted_trace)) \<lparr>ctx_ok = True, decode_ok = False, blob_ok = True\<rparr>
      (run extracted_trace)) = Unsettled"
  by (simp add: run_extracted createOverlayImage_def overlay_guard_def initial_session_def)

text \<open>
  C10 (guards).  The extract handler called with no selected file returns the world unchanged:
  no state variable changes and no request is started.  The overlay handler called with no
  selected file or with no region resolves with nothing and returns the world unchanged.
\<close>

theorem guards_leave_state:
  "(selectedFile c = None \<longrightarrow> handleOCR c w = w) \<and>
   (selectedFile c = None \<or> textRegions c = [] \<longrightarrow>
      createOverlayImage c env w = (Resolved None, w) \<and> createOverlayImage_begin c ctx w = w)"
  by (auto simp: handlers overlay_guard_def)

theorem guards_leave_state_witness:
  "selectedFile initial_session = None \<and> textRegions initial_session = [] \<and>
   handleOCR initial_session initial_world = initial_world \<and>
   createOverlayImage initial_session \<lparr>ctx_ok = True, decode_ok = True, blob_ok = True\<rparr> initial_world
     = (Resolved None, initial_world) \<and>
   createOverlayImage_begin initial_session True initial_world = initial_world \<and>
   step initial_world ExtractClicked = initial_world"
  using guards_leave_state [of initial_session initial_world
      "\<lparr>ctx_ok = True, decode_ok = True, blob_ok = True\<rparr>" True]
  by (simp add: initial_session_def initial_world_def)

end
